theory Spec2Isabelle
  imports Complex_Main "HOL-Library.Char_ord" "HOL-Library.List_Lexorder"
begin

section \<open>Numbers\<close>

text \<open>
  The program computes with pandas tables of double-precision numbers. A cell is modelled
  as a value of \<open>fl\<close>: a finite number, idealised as a real (rounding, overflow and the
  sign of zero are not modelled), one of the two infinities, or NaN, which is also what
  pandas puts in a cell that label alignment leaves without a value. The operations
  follow IEEE 754 on the special values.
\<close>

datatype fl = Num real | PInf | NInf | NaN

fun fneg :: "fl \<Rightarrow> fl" where
  "fneg (Num a) = Num (- a)"
| "fneg PInf = NInf"
| "fneg NInf = PInf"
| "fneg NaN = NaN"

fun fadd :: "fl \<Rightarrow> fl \<Rightarrow> fl" where
  "fadd (Num a) (Num b) = Num (a + b)"
| "fadd NaN y = NaN"
| "fadd x NaN = NaN"
| "fadd PInf NInf = NaN"
| "fadd NInf PInf = NaN"
| "fadd PInf y = PInf"
| "fadd NInf y = NInf"
| "fadd (Num a) y = y"

definition fsub :: "fl \<Rightarrow> fl \<Rightarrow> fl" where
  "fsub x y = fadd x (fneg y)"

text \<open>The sign of a value: \<open>Some True\<close> positive, \<open>Some False\<close> negative, \<open>None\<close> zero or NaN.\<close>

fun fsign :: "fl \<Rightarrow> bool option" where
  "fsign (Num a) = (if a > 0 then Some True else if a < 0 then Some False else None)"
| "fsign PInf = Some True"
| "fsign NInf = Some False"
| "fsign NaN = None"

definition finf :: "bool \<Rightarrow> fl" where
  "finf pos = (if pos then PInf else NInf)"

fun fmul :: "fl \<Rightarrow> fl \<Rightarrow> fl" where
  "fmul (Num a) (Num b) = Num (a * b)"
| "fmul NaN y = NaN"
| "fmul x NaN = NaN"
| "fmul x y = (case (fsign x, fsign y) of
                 (Some s, Some t) \<Rightarrow> finf (s = t)
               | _ \<Rightarrow> NaN)"

text \<open>
  Division by zero does not raise on numpy numbers: it gives an infinity, or NaN for
  \<open>0 / 0\<close>. The zero divisors of the program are positive zeros.
\<close>

fun fdiv :: "fl \<Rightarrow> fl \<Rightarrow> fl" where
  "fdiv NaN y = NaN"
| "fdiv x NaN = NaN"
| "fdiv (Num a) (Num b) =
     (if b \<noteq> 0 then Num (a / b)
      else (case fsign (Num a) of Some s \<Rightarrow> finf s | None \<Rightarrow> NaN))"
| "fdiv (Num a) y = Num 0"
| "fdiv x (Num b) = finf ((fsign x = Some True) = (0 \<le> b))"
| "fdiv x y = NaN"

text \<open>\<open>fsum\<close> is numpy's sum, in which NaN propagates; \<open>sum_skipna\<close> is pandas' \<open>sum\<close>,
  which leaves NaN cells out (\<open>skipna=True\<close>) and is 0 on an empty selection.\<close>

fun fsum :: "fl list \<Rightarrow> fl" where
  "fsum [] = Num 0"
| "fsum (x # xs) = fadd x (fsum xs)"

definition sum_skipna :: "fl list \<Rightarrow> fl" where
  "sum_skipna xs = fsum (filter (\<lambda>x. x \<noteq> NaN) xs)"

section \<open>Labelled tables\<close>

text \<open>
  A pandas Series is a list of labels with a value for each; a DataFrame has row labels
  (\<open>index\<close>), column labels (\<open>columns\<close>) and a cell for each pair. The labels of an axis
  are distinct (a unique Index), and the cells are read at labels of the axes only.
\<close>

type_synonym label = string

record series =
  s_index :: "label list"
  s_val :: "label \<Rightarrow> fl"

record frame =
  index :: "label list"
  columns :: "label list"
  cell :: "label \<Rightarrow> label \<Rightarrow> fl"

datatype error = KeyError | ValueError | AttributeError | FitError

text \<open>\<open>pd.DataFrame(v, index=idx, columns=cols)\<close> and \<open>pd.Series(v, index=idx)\<close>.\<close>

definition const_frame :: "fl \<Rightarrow> label list \<Rightarrow> label list \<Rightarrow> frame" where
  "const_frame v idx cols = \<lparr>index = idx, columns = cols, cell = (\<lambda>r c. v)\<rparr>"

definition const_series :: "fl \<Rightarrow> label list \<Rightarrow> series" where
  "const_series v idx = \<lparr>s_index = idx, s_val = (\<lambda>r. v)\<rparr>"

text \<open>\<open>f.loc[r, c]\<close>: a label that is not on the axis raises KeyError.\<close>

definition loc :: "frame \<Rightarrow> label \<Rightarrow> label \<Rightarrow> error + fl" where
  "loc f r c = (if r \<in> set (index f) \<and> c \<in> set (columns f) then Inr (cell f r c)
                else Inl KeyError)"

text \<open>
  The labels of an aligned result: the axis itself when both operands have the same
  axis, their sorted union otherwise.
\<close>

definition union_labels :: "label list \<Rightarrow> label list \<Rightarrow> label list" where
  "union_labels a b = (if a = b then a else sort (remdups (a @ b)))"

text \<open>\<open>a + b\<close> and \<open>a * b\<close> on DataFrames: both axes are aligned, and a cell that one
  operand does not have is NaN.\<close>

definition frame_op :: "(fl \<Rightarrow> fl \<Rightarrow> fl) \<Rightarrow> frame \<Rightarrow> frame \<Rightarrow> frame" where
  "frame_op f a b =
     \<lparr>index = union_labels (index a) (index b),
      columns = union_labels (columns a) (columns b),
      cell = (\<lambda>r c. if r \<in> set (index a) \<and> r \<in> set (index b)
                        \<and> c \<in> set (columns a) \<and> c \<in> set (columns b)
                      then f (cell a r c) (cell b r c) else NaN)\<rparr>"

definition frame_add :: "frame \<Rightarrow> frame \<Rightarrow> frame" where
  "frame_add = frame_op fadd"

definition frame_mul :: "frame \<Rightarrow> frame \<Rightarrow> frame" where
  "frame_mul = frame_op fmul"

text \<open>
  \<open>a.dot(b)\<close>: the columns of \<open>a\<close> and the index of \<open>b\<close> must hold the same labels, or
  pandas raises ValueError (matrices are not aligned); the product is taken by label.
\<close>

definition dot_cells :: "frame \<Rightarrow> frame \<Rightarrow> frame" where
  "dot_cells a b =
     \<lparr>index = index a, columns = columns b,
      cell = (\<lambda>r c. fsum (map (\<lambda>k. fmul (cell a r k) (cell b k c))
                                (union_labels (columns a) (index b))))\<rparr>"

definition dot :: "frame \<Rightarrow> frame \<Rightarrow> error + frame" where
  "dot a b = (if set (columns a) = set (index b) then Inr (dot_cells a b)
              else Inl ValueError)"

text \<open>\<open>f.sum(axis=1)\<close>: the sum of each row, NaN cells left out.\<close>

definition row_sum :: "frame \<Rightarrow> label \<Rightarrow> fl" where
  "row_sum f r = sum_skipna (map (cell f r) (columns f))"

definition sum_axis1 :: "frame \<Rightarrow> series" where
  "sum_axis1 f = \<lparr>s_index = index f, s_val = row_sum f\<rparr>"

section \<open>Inner model: the effects table\<close>

record effect =
  e_label :: string
  e_from :: label
  e_to :: label
  e_direct :: fl
  e_indirect :: fl
  e_total :: fl

text \<open>
  The first half of \<open>_effects\<close>: the dictionary \<open>path_effects\<close>, the matrix
  \<open>indirect_paths\<close> and the matrix \<open>total_paths\<close>. \<open>effects_loop\<close> is the body of
  \<open>for i in range(1, num_lvs)\<close>, run over the list of the remaining values of \<open>i\<close>.
\<close>

type_synonym path_effects = "nat \<rightharpoonup> frame"

fun effects_loop ::
  "frame \<Rightarrow> nat list \<Rightarrow> path_effects \<times> frame \<Rightarrow> error + (path_effects \<times> frame)" where
  "effects_loop path [] st = Inr st"
| "effects_loop path (i # is) (pe, indirect_paths) =
     (case pe (i - 1) of
        None \<Rightarrow> Inl KeyError
      | Some prev \<Rightarrow>
          (case dot prev path of
             Inl e \<Rightarrow> Inl e
           | Inr p \<Rightarrow> effects_loop path is (pe(i \<mapsto> p), frame_add indirect_paths p)))"

definition effects_general :: "frame \<Rightarrow> error + (path_effects \<times> frame \<times> frame)" where
  "effects_general path =
     (case effects_loop path [1 ..< length (columns path)]
             (Map.empty(0 \<mapsto> path), const_frame (Num 0) (index path) (columns path)) of
        Inl e \<Rightarrow> Inl e
      | Inr (pe, indirect_paths) \<Rightarrow> Inr (pe, indirect_paths, frame_add path indirect_paths))"

definition effects_matrices :: "frame \<Rightarrow> error + (path_effects \<times> frame \<times> frame)" where
  "effects_matrices path =
     (if length (columns path) = 2
      then Inr (Map.empty, const_frame (Num 0) (index path) (columns path), path)
      else effects_general path)"

text \<open>
  The second half: the two nested loops over \<open>list(path)\<close>, the column labels. The test
  \<open>from_lv != to_lv and total_paths.loc[to_lv, from_lv] != 0\<close> reads the cell only when
  the labels differ; NaN is different from 0.
\<close>

definition effect_row :: "frame \<Rightarrow> frame \<Rightarrow> frame \<Rightarrow> label \<Rightarrow> label \<Rightarrow> error + effect" where
  "effect_row path indirect_paths total_paths from_lv to_lv =
     (case loc path to_lv from_lv of
        Inl e \<Rightarrow> Inl e
      | Inr d \<Rightarrow>
          (case loc indirect_paths to_lv from_lv of
             Inl e \<Rightarrow> Inl e
           | Inr i \<Rightarrow>
               (case loc total_paths to_lv from_lv of
                  Inl e \<Rightarrow> Inl e
                | Inr t \<Rightarrow>
                    Inr \<lparr>e_label = from_lv @ '' -> '' @ to_lv, e_from = from_lv,
                         e_to = to_lv, e_direct = d, e_indirect = i, e_total = t\<rparr>)))"

fun effects_inner ::
  "frame \<Rightarrow> frame \<Rightarrow> frame \<Rightarrow> label \<Rightarrow> label list \<Rightarrow> effect list \<Rightarrow> error + effect list" where
  "effects_inner path ind tot from_lv [] effects = Inr effects"
| "effects_inner path ind tot from_lv (to_lv # tos) effects =
     (if from_lv \<noteq> to_lv
      then (case loc tot to_lv from_lv of
              Inl e \<Rightarrow> Inl e
            | Inr t \<Rightarrow>
                if t \<noteq> Num 0
                then (case effect_row path ind tot from_lv to_lv of
                        Inl e \<Rightarrow> Inl e
                      | Inr row \<Rightarrow> effects_inner path ind tot from_lv tos (effects @ [row]))
                else effects_inner path ind tot from_lv tos effects)
      else effects_inner path ind tot from_lv tos effects)"

fun effects_outer ::
  "frame \<Rightarrow> frame \<Rightarrow> frame \<Rightarrow> label list \<Rightarrow> effect list \<Rightarrow> error + effect list" where
  "effects_outer path ind tot [] effects = Inr effects"
| "effects_outer path ind tot (from_lv # froms) effects =
     (case effects_inner path ind tot from_lv (columns path) effects of
        Inl e \<Rightarrow> Inl e
      | Inr effects' \<Rightarrow> effects_outer path ind tot froms effects')"

text \<open>\<open>_effects(path)\<close>.\<close>

definition p_effects :: "frame \<Rightarrow> error + effect list" where
  "p_effects path =
     (case effects_matrices path of
        Inl e \<Rightarrow> Inl e
      | Inr (pe, indirect_paths, total_paths) \<Rightarrow>
          effects_outer path indirect_paths total_paths (columns path) [])"

section \<open>Inner model: the regressions\<close>

text \<open>
  A table of observations (\<open>scores\<close>, \<open>data\<close>): \<open>nrows\<close> is \<open>shape[0]\<close>, and each
  column label has a column of values.
\<close>

record table =
  nrows :: nat
  tcolumns :: "label list"
  tcolumn :: "label \<Rightarrow> fl list"

text \<open>\<open>t.loc[:, labels]\<close> and \<open>t.loc[:, label]\<close>: a label that is not a column raises KeyError.\<close>

definition loc_columns :: "table \<Rightarrow> label list \<Rightarrow> error + table" where
  "loc_columns t labels =
     (if set labels \<subseteq> set (tcolumns t) then Inr (t\<lparr>tcolumns := labels\<rparr>) else Inl KeyError)"

definition loc_column :: "table \<Rightarrow> label \<Rightarrow> error + fl list" where
  "loc_column t l = (if l \<in> set (tcolumns t) then Inr (tcolumn t l) else Inl KeyError)"

text \<open>
  The regression library (statsmodels) is not part of the program: it is a parameter.
  \<open>add_constant\<close> stands for \<open>sm.add_constant\<close>, \<open>ols_fit y x\<close> for \<open>sm.OLS(y, x).fit()\<close>,
  whose result holds the series \<open>params\<close>, \<open>bse\<close>, \<open>tvalues\<close> and \<open>pvalues\<close>, indexed by
  the names of the regressors, and \<open>rsquared\<close>.
\<close>

record regression =
  params :: series
  bse :: series
  tvalues :: series
  pvalues :: series
  rsquared :: fl

record statsmodels =
  add_constant :: "table \<Rightarrow> table"
  ols_fit :: "fl list \<Rightarrow> table \<Rightarrow> error + regression"

text \<open>The value of a series at a label after alignment: NaN where the series has no such label.\<close>

definition series_at :: "series \<Rightarrow> label \<Rightarrow> fl" where
  "series_at s l = (if l \<in> set (s_index s) then s_val s l else NaN)"

record summary_row =
  sr_from :: label
  sr_to :: label
  sr_estimate :: fl
  sr_std_error :: fl
  sr_t :: fl
  sr_p :: fl
  sr_index :: string

text \<open>\<open>_summary(dv, regression)\<close>: one row for each regressor; \<open>drop(['const'])\<close> raises
  KeyError when no row is labelled \<open>const\<close>.\<close>

definition p_summary :: "label \<Rightarrow> regression \<Rightarrow> error + summary_row list" where
  "p_summary dv reg =
     (if ''const'' \<in> set (s_index (params reg))
      then Inr (map (\<lambda>l. \<lparr>sr_from = l, sr_to = dv,
                          sr_estimate = s_val (params reg) l,
                          sr_std_error = series_at (bse reg) l,
                          sr_t = series_at (tvalues reg) l,
                          sr_p = series_at (pvalues reg) l,
                          sr_index = l @ '' -> '' @ dv\<rparr>)
                    (filter (\<lambda>l. l \<noteq> ''const'') (s_index (params reg))))
      else Inl KeyError)"

text \<open>The fields of an \<open>InnerModel\<close> object (\<open>self.__summaries\<close>, \<open>self.__r_squared\<close>, ...).\<close>

record inner_model_obj =
  im_summaries :: "summary_row list option"
  im_r_squared :: series
  im_r_squared_adj :: series
  im_path_coefficients :: frame
  im_endogenous :: "label list"
  im_effects :: "effect list"

text \<open>\<open>path.loc[dv,][path.loc[dv,] == 1].index\<close>: the columns whose entry in row \<open>dv\<close> is 1.\<close>

definition predictors :: "frame \<Rightarrow> label \<Rightarrow> label list" where
  "predictors path dv = filter (\<lambda>c. cell path dv c = Num 1) (columns path)"

text \<open>\<open>1 - (1 - rsquared) * (rows - 1) / (rows - path.loc[dv].sum() - 1)\<close>.\<close>

definition adjusted :: "fl \<Rightarrow> nat \<Rightarrow> fl \<Rightarrow> fl" where
  "adjusted rsq rows s =
     fsub (Num 1)
       (fdiv (fmul (fsub (Num 1) rsq) (Num (real rows - 1)))
             (fsub (fsub (Num (real rows)) s) (Num 1)))"

text \<open>\<open>s.loc[l] = v\<close> and \<open>f.loc[r, cs] = s\<close> (the series is aligned to the labels \<open>cs\<close>).\<close>

definition set_loc :: "series \<Rightarrow> label \<Rightarrow> fl \<Rightarrow> series" where
  "set_loc s l v = s\<lparr>s_val := (s_val s)(l := v)\<rparr>"

definition set_row :: "frame \<Rightarrow> label \<Rightarrow> label list \<Rightarrow> series \<Rightarrow> frame" where
  "set_row f r cs s =
     f\<lparr>cell := (\<lambda>r' c. if r' = r \<and> c \<in> set cs then series_at s c else cell f r' c)\<rparr>"

text \<open>\<open>pd.concat([summaries, new])\<close>, where \<open>summaries\<close> may still be \<open>None\<close>.\<close>

definition concat_summaries :: "summary_row list option \<Rightarrow> summary_row list \<Rightarrow> summary_row list option" where
  "concat_summaries old new = (case old of None \<Rightarrow> Some new | Some rows \<Rightarrow> Some (rows @ new))"

text \<open>
  The regression of \<open>dv\<close>: \<open>scores.loc[:, ivs]\<close>, then \<open>sm.add_constant\<close>, then
  \<open>scores.loc[:, dv]\<close>, then the fit.
\<close>

definition regression_of :: "statsmodels \<Rightarrow> frame \<Rightarrow> table \<Rightarrow> label \<Rightarrow> error + regression" where
  "regression_of sm path scores dv =
     (case loc_columns scores (predictors path dv) of
        Inl e \<Rightarrow> Inl e
      | Inr x \<Rightarrow>
          (let exogenous = add_constant sm x in
           case loc_column scores dv of
             Inl e \<Rightarrow> Inl e
           | Inr y \<Rightarrow> ols_fit sm y exogenous))"

text \<open>One pass of \<open>for dv in self.__endogenous\<close>.\<close>

definition regress_step ::
  "statsmodels \<Rightarrow> frame \<Rightarrow> table \<Rightarrow> label \<Rightarrow> inner_model_obj \<Rightarrow> error + inner_model_obj" where
  "regress_step sm path scores dv self =
     (case regression_of sm path scores dv of
        Inl e \<Rightarrow> Inl e
      | Inr reg \<Rightarrow>
          (let self1 = self\<lparr>im_path_coefficients :=
                               set_row (im_path_coefficients self) dv (predictors path dv) (params reg)\<rparr>;
               self2 = self1\<lparr>im_r_squared := set_loc (im_r_squared self1) dv (rsquared reg)\<rparr>;
               self3 = self2\<lparr>im_r_squared_adj :=
                                set_loc (im_r_squared_adj self2) dv
                                  (adjusted (rsquared reg) (nrows scores) (row_sum path dv))\<rparr>
           in case p_summary dv reg of
                Inl e \<Rightarrow> Inl e
              | Inr rows \<Rightarrow>
                  Inr (self3\<lparr>im_summaries := concat_summaries (im_summaries self3) rows\<rparr>)))"

fun regress_loop ::
  "statsmodels \<Rightarrow> frame \<Rightarrow> table \<Rightarrow> label list \<Rightarrow> inner_model_obj \<Rightarrow> error + inner_model_obj" where
  "regress_loop sm path scores [] self = Inr self"
| "regress_loop sm path scores (dv # dvs) self =
     (case regress_step sm path scores dv self of
        Inl e \<Rightarrow> Inl e
      | Inr self' \<Rightarrow> regress_loop sm path scores dvs self')"

text \<open>\<open>path.sum(axis=1).astype(bool)\<close>: a row is endogenous when its sum is not 0.\<close>

definition endogenous_of :: "frame \<Rightarrow> label list" where
  "endogenous_of path = filter (\<lambda>dv. row_sum path dv \<noteq> Num 0) (index path)"

definition init_obj :: "frame \<Rightarrow> inner_model_obj" where
  "init_obj path =
     \<lparr>im_summaries = None,
      im_r_squared = const_series (Num 0) (index path),
      im_r_squared_adj = const_series (Num 0) (index path),
      im_path_coefficients = const_frame (Num 0) (index path) (columns path),
      im_endogenous = endogenous_of path,
      im_effects = []\<rparr>"

text \<open>\<open>InnerModel.__init__(path, scores)\<close>.\<close>

definition InnerModel :: "statsmodels \<Rightarrow> frame \<Rightarrow> table \<Rightarrow> error + inner_model_obj" where
  "InnerModel sm path scores =
     (case regress_loop sm path scores (endogenous_of path) (init_obj path) of
        Inl e \<Rightarrow> Inl e
      | Inr self \<Rightarrow>
          (case p_effects (im_path_coefficients self) of
             Inl e \<Rightarrow> Inl e
           | Inr effects \<Rightarrow> Inr (self\<lparr>im_effects := effects\<rparr>)))"

text \<open>The accessors. \<open>inner_model\<close> calls \<open>set_index\<close> on \<open>self.__summaries\<close>, which raises
  AttributeError on \<open>None\<close>; the table it returns is keyed by \<open>sr_index\<close>.\<close>

definition path_coefficients :: "inner_model_obj \<Rightarrow> error + frame" where
  "path_coefficients self = Inr (im_path_coefficients self)"

definition r_squared :: "inner_model_obj \<Rightarrow> error + series" where
  "r_squared self = Inr (im_r_squared self)"

definition r_squared_adj :: "inner_model_obj \<Rightarrow> error + series" where
  "r_squared_adj self = Inr (im_r_squared_adj self)"

definition inner_model :: "inner_model_obj \<Rightarrow> error + summary_row list" where
  "inner_model self = (case im_summaries self of None \<Rightarrow> Inl AttributeError | Some rows \<Rightarrow> Inr rows)"

definition effects :: "inner_model_obj \<Rightarrow> error + effect list" where
  "effects self = Inr (im_effects self)"

definition endogenous :: "inner_model_obj \<Rightarrow> error + label list" where
  "endogenous self = Inr (im_endogenous self)"

section \<open>Outer model\<close>

text \<open>
  \<open>corr\<close> stands for the correlation of two columns as pandas computes it
  (\<open>corrwith\<close>); it is a parameter. \<open>crossloadings\<close> has a row for each column of
  \<open>data\<close> and a column for each column of \<open>y\<close>.
\<close>

definition crossloadings_of :: "(fl list \<Rightarrow> fl list \<Rightarrow> fl) \<Rightarrow> table \<Rightarrow> table \<Rightarrow> frame" where
  "crossloadings_of corr data y =
     \<lparr>index = tcolumns data, columns = tcolumns y,
      cell = (\<lambda>i l. corr (tcolumn data i) (tcolumn y l))\<rparr>"

text \<open>\<open>np.diag(r_squared)\<close> as a DataFrame labelled by the index of \<open>r_squared\<close>.\<close>

definition diag_frame :: "series \<Rightarrow> frame" where
  "diag_frame s =
     \<lparr>index = s_index s, columns = s_index s,
      cell = (\<lambda>r c. if r = c then s_val s r else Num 0)\<rparr>"

text \<open>\<open>a * b\<close> on one-column tables with the same column name: aligned on the index.\<close>

definition series_mul :: "series \<Rightarrow> series \<Rightarrow> series" where
  "series_mul a b =
     \<lparr>s_index = union_labels (s_index a) (s_index b),
      s_val = (\<lambda>i. if i \<in> set (s_index a) \<and> i \<in> set (s_index b)
                    then fmul (s_val a i) (s_val b i) else NaN)\<rparr>"

text \<open>\<open>s.apply(lambda s: pow(s, 2))\<close>.\<close>

definition pow2 :: "series \<Rightarrow> series" where
  "pow2 s = s\<lparr>s_val := (\<lambda>i. fmul (s_val s i) (s_val s i))\<rparr>"

text \<open>
  The table \<open>pd.concat([weights, loading, communality, redundancy], axis=1, sort=True)\<close>:
  its index is the sorted union of the four indexes, its columns are those of \<open>weights\<close>
  and the three named ones, and a cell is NaN where the part has no such row.
\<close>

record outer_table =
  ot_index :: "label list"
  ot_weight_columns :: "label list"
  ot_weight :: "label \<Rightarrow> label \<Rightarrow> fl"
  ot_loading :: "label \<Rightarrow> fl"
  ot_communality :: "label \<Rightarrow> fl"
  ot_redundancy :: "label \<Rightarrow> fl"

definition concat_axis1 :: "frame \<Rightarrow> series \<Rightarrow> series \<Rightarrow> series \<Rightarrow> outer_table" where
  "concat_axis1 weights loading communality redundancy =
     \<lparr>ot_index = sort (remdups (index weights @ s_index loading
                                  @ s_index communality @ s_index redundancy)),
      ot_weight_columns = columns weights,
      ot_weight = (\<lambda>i c. if i \<in> set (index weights) then cell weights i c else NaN),
      ot_loading = series_at loading,
      ot_communality = series_at communality,
      ot_redundancy = series_at redundancy\<rparr>"

record outer_model_obj =
  om_crossloadings :: frame
  om_outer_model :: outer_table

text \<open>\<open>OuterModel.__init__(data, y, weights, odm, r_squared)\<close>.\<close>

definition OuterModel ::
  "(fl list \<Rightarrow> fl list \<Rightarrow> fl) \<Rightarrow> table \<Rightarrow> table \<Rightarrow> frame \<Rightarrow> frame \<Rightarrow> series
     \<Rightarrow> error + outer_model_obj" where
  "OuterModel corr data y weights odm r_sq =
     (let crossloadings = crossloadings_of corr data y;
          loading = sum_axis1 (frame_mul crossloadings odm);
          communality = pow2 loading
      in case dot odm (diag_frame r_sq) of
           Inl e \<Rightarrow> Inl e
         | Inr odm_r2 \<Rightarrow>
             (let r_squared_aux = sum_axis1 odm_r2;
                  redundancy = series_mul communality r_squared_aux
              in Inr \<lparr>om_crossloadings = crossloadings,
                      om_outer_model = concat_axis1 weights loading communality redundancy\<rparr>))"

definition model :: "outer_model_obj \<Rightarrow> outer_table" where
  "model self = om_outer_model self"

definition crossloadings :: "outer_model_obj \<Rightarrow> frame" where
  "crossloadings self = om_crossloadings self"

section \<open>The specification's reading of the effects computation\<close>

text \<open>
  The matrix power series in the specification's words: \<open>mpower path k\<close> is
  \<open>path_effects[k]\<close>, the product of \<open>k + 1\<close> copies of \<open>path\<close>, and \<open>power_series\<close> is
  the sum of \<open>path_effects[1]\<close> to \<open>path_effects[num_lvs - 1]\<close>, added in this order to a
  table of zeros.
\<close>

fun mpower :: "frame \<Rightarrow> nat \<Rightarrow> frame" where
  "mpower path 0 = path"
| "mpower path (Suc k) = dot_cells (mpower path k) path"

definition power_series :: "frame \<Rightarrow> frame" where
  "power_series path =
     foldl frame_add (const_frame (Num 0) (index path) (columns path))
       (map (mpower path) [1 ..< length (columns path)])"

text \<open>
  The effects table in the specification's words: one row for each ordered pair
  \<open>(from, to)\<close> of different labels whose total effect is not 0, in the order of the two
  loops, with the values read at \<open>[to, from]\<close>.
\<close>

definition effect_of :: "frame \<Rightarrow> frame \<Rightarrow> frame \<Rightarrow> label \<Rightarrow> label \<Rightarrow> effect" where
  "effect_of path ind tot from_lv to_lv =
     \<lparr>e_label = from_lv @ '' -> '' @ to_lv, e_from = from_lv, e_to = to_lv,
      e_direct = cell path to_lv from_lv, e_indirect = cell ind to_lv from_lv,
      e_total = cell tot to_lv from_lv\<rparr>"

definition effects_spec :: "frame \<Rightarrow> frame \<Rightarrow> frame \<Rightarrow> effect list" where
  "effects_spec path ind tot =
     map (\<lambda>(f, t). effect_of path ind tot f t)
       (filter (\<lambda>(f, t). f \<noteq> t \<and> cell tot t f \<noteq> Num 0)
          (List.product (columns path) (columns path)))"

text \<open>The test \<open>x > 0\<close> on a cell, for the specification's reading of the endogenous set.\<close>

fun fgt0 :: "fl \<Rightarrow> bool" where
  "fgt0 (Num a) = (0 < a)"
| "fgt0 PInf = True"
| "fgt0 NInf = False"
| "fgt0 NaN = False"

section \<open>Example inputs\<close>

text \<open>A chain \<open>A -> B -> C\<close> of path coefficients \<open>1/2\<close> and \<open>4\<close>.\<close>

definition chain3 :: frame where
  "chain3 = \<lparr>index = [''A'', ''B'', ''C''], columns = [''A'', ''B'', ''C''],
             cell = (\<lambda>r c. if r = ''B'' \<and> c = ''A'' then Num (1/2)
                             else if r = ''C'' \<and> c = ''B'' then Num 4 else Num 0)\<rparr>"

text \<open>
  A path matrix on \<open>A\<close>, \<open>B\<close>, \<open>C\<close> with the arrows \<open>A -> B\<close>, \<open>A -> C\<close> and \<open>B -> C\<close>,
  scores of 5 cases, and a stand-in for the regression library: it refuses a response
  that is empty or not as long as the table, and a table without the constant; otherwise
  it answers with the coefficients \<open>1/2\<close> and \<open>R\<^sup>2 = 1 - 1 / (k + 1)\<close> for \<open>k\<close>
  regressors, the constant among them.
\<close>

definition path3 :: frame where
  "path3 = \<lparr>index = [''A'', ''B'', ''C''], columns = [''A'', ''B'', ''C''],
            cell = (\<lambda>r c. if (r = ''B'' \<and> c = ''A'') \<or> (r = ''C'' \<and> c = ''A'')
                               \<or> (r = ''C'' \<and> c = ''B'') then Num 1 else Num 0)\<rparr>"

definition scores3 :: table where
  "scores3 = \<lparr>nrows = 5, tcolumns = [''A'', ''B'', ''C''],
              tcolumn = (\<lambda>l. if l = ''A'' then map Num [1, 2, 3, 4, 5]
                             else if l = ''B'' then map Num [2, 1, 4, 3, 5]
                             else map Num [1, 3, 2, 5, 4])\<rparr>"

definition stub_regression :: "label list \<Rightarrow> regression" where
  "stub_regression names =
     \<lparr>params = const_series (Num (1/2)) names, bse = const_series (Num 1) names,
      tvalues = const_series (Num (1/2)) names, pvalues = const_series (Num (1/2)) names,
      rsquared = Num (1 - 1 / (real (length names) + 1))\<rparr>"

definition stub_sm :: statsmodels where
  "stub_sm = \<lparr>add_constant = (\<lambda>t. t\<lparr>tcolumns := ''const'' # tcolumns t,
                                        tcolumn := (tcolumn t)(''const'' := replicate (nrows t) (Num 1))\<rparr>),
              ols_fit = (\<lambda>y x. if y \<noteq> [] \<and> length y = nrows x \<and> ''const'' \<in> set (tcolumns x)
                               then Inr (stub_regression (tcolumns x)) else Inl FitError)\<rparr>"

text \<open>A path matrix on \<open>A\<close>, \<open>B\<close>, \<open>C\<close> without arrows.\<close>

definition empty3 :: frame where
  "empty3 = const_frame (Num 0) [''A'', ''B'', ''C''] [''A'', ''B'', ''C'']"

text \<open>Path coefficients of a model of two variables with the arrow \<open>X -> Y\<close>.\<close>

definition arrow2 :: frame where
  "arrow2 = \<lparr>index = [''X'', ''Y''], columns = [''X'', ''Y''],
             cell = (\<lambda>r c. if r = ''Y'' \<and> c = ''X'' then Num 2 else Num 0)\<rparr>"

text \<open>
  An outer model: the indicators \<open>x1\<close>, \<open>x2\<close> of the block \<open>A\<close> and \<open>x3\<close> of the block
  \<open>B\<close>, with \<open>R\<^sup>2 = 0\<close> for the exogenous \<open>A\<close> and \<open>3/4\<close> for \<open>B\<close>, and a stand-in for the
  correlation that answers \<open>1/2\<close> for every pair of columns.
\<close>

definition data3 :: table where
  "data3 = \<lparr>nrows = 5, tcolumns = [''x1'', ''x2'', ''x3''],
            tcolumn = (\<lambda>l. if l = ''x1'' then map Num [1, 2, 3, 4, 5]
                           else if l = ''x2'' then map Num [2, 1, 4, 3, 5]
                           else map Num [1, 3, 2, 5, 4])\<rparr>"

definition y2 :: table where
  "y2 = \<lparr>nrows = 5, tcolumns = [''A'', ''B''],
         tcolumn = (\<lambda>l. if l = ''A'' then map Num [1, 1, 3, 3, 5] else map Num [1, 3, 2, 5, 4])\<rparr>"

definition odm3 :: frame where
  "odm3 = \<lparr>index = [''x1'', ''x2'', ''x3''], columns = [''A'', ''B''],
           cell = (\<lambda>i l. if (l = ''A'' \<and> (i = ''x1'' \<or> i = ''x2'')) \<or> (l = ''B'' \<and> i = ''x3'')
                           then Num 1 else Num 0)\<rparr>"

definition weights3 :: frame where
  "weights3 = const_frame (Num (1/3)) [''x1'', ''x2'', ''x3''] [''weight'']"

definition r_sq2 :: series where
  "r_sq2 = \<lparr>s_index = [''A'', ''B''], s_val = (\<lambda>l. if l = ''B'' then Num (3/4) else Num 0)\<rparr>"

definition stub_corr :: "fl list \<Rightarrow> fl list \<Rightarrow> fl" where
  "stub_corr xs ys = Num (1/2)"

text \<open>
  Inputs whose labels do not match: a path matrix on \<open>A\<close>, \<open>B\<close>, \<open>C\<close> with the arrow
  \<open>A -> B\<close> and scores for \<open>A\<close> and \<open>B\<close> only, or for \<open>A\<close> only; data for the indicators
  \<open>x1\<close> and \<open>x2\<close> only; an \<open>R\<^sup>2\<close> series for \<open>A\<close> only.
\<close>

definition path_ab :: frame where
  "path_ab = \<lparr>index = [''A'', ''B'', ''C''], columns = [''A'', ''B'', ''C''],
              cell = (\<lambda>r c. if r = ''B'' \<and> c = ''A'' then Num 1 else Num 0)\<rparr>"

definition scores_ab :: table where
  "scores_ab = \<lparr>nrows = 5, tcolumns = [''A'', ''B''],
                tcolumn = (\<lambda>l. if l = ''A'' then map Num [1, 2, 3, 4, 5]
                               else map Num [2, 1, 4, 3, 5])\<rparr>"

definition scores_a :: table where
  "scores_a = \<lparr>nrows = 5, tcolumns = [''A''], tcolumn = (\<lambda>l. map Num [1, 2, 3, 4, 5])\<rparr>"

definition data2 :: table where
  "data2 = \<lparr>nrows = 5, tcolumns = [''x1'', ''x2''],
            tcolumn = (\<lambda>l. if l = ''x1'' then map Num [1, 2, 3, 4, 5]
                           else map Num [2, 1, 4, 3, 5])\<rparr>"

definition r_sq1 :: series where
  "r_sq1 = \<lparr>s_index = [''A''], s_val = (\<lambda>l. Num 0)\<rparr>"

section \<open>The effects computation is the matrix power series\<close>

lemma columns_mpower: "columns (mpower path k) = columns path"
  by (cases k) (simp_all add: dot_cells_def)

lemma index_mpower: "index (mpower path k) = index path"
  by (induction k) (simp_all add: dot_cells_def)

lemma dot_mpower:
  "set (index path) = set (columns path) \<Longrightarrow> dot (mpower path k) path = Inr (mpower path (Suc k))"
  by (simp add: dot_def columns_mpower)

text \<open>The loop invariant: when the loop is about to run \<open>i\<close>, the dictionary holds
  \<open>path_effects[i - 1]\<close>; the loop adds the entries \<open>i\<close> to \<open>n - 1\<close> and their sum.\<close>

lemma effects_loop_upt:
  assumes sq: "set (index path) = set (columns path)"
  shows "0 < i \<Longrightarrow> pe (i - 1) = Some (mpower path (i - 1)) \<Longrightarrow>
     effects_loop path [i ..< n] (pe, ind) =
       Inr ((\<lambda>k. if i \<le> k \<and> k < n then Some (mpower path k) else pe k),
            foldl frame_add ind (map (mpower path) [i ..< n]))"
proof (induction "n - i" arbitrary: i pe ind)
  case 0
  then have "(\<lambda>k. if i \<le> k \<and> k < n then Some (mpower path k) else pe k) = pe"
    by (auto simp: fun_eq_iff)
  with 0 show ?case by simp
next
  case (Suc d)
  then have lt: "i < n" by simp
  obtain j where j: "i = Suc j" using Suc.prems(1) by (cases i) auto
  have d: "d = n - Suc i" using Suc.hyps(2) by simp
  have step: "dot (mpower path (i - 1)) path = Inr (mpower path i)"
    using dot_mpower [OF sq, of j] j by simp
  have upd: "(pe(i \<mapsto> mpower path i)) (Suc i - 1) = Some (mpower path (Suc i - 1))" by simp
  have rec: "effects_loop path [Suc i ..< n] (pe(i \<mapsto> mpower path i), frame_add ind (mpower path i)) =
       Inr ((\<lambda>k. if Suc i \<le> k \<and> k < n then Some (mpower path k) else (pe(i \<mapsto> mpower path i)) k),
            foldl frame_add (frame_add ind (mpower path i)) (map (mpower path) [Suc i ..< n]))"
    using Suc.hyps(1) [of "Suc i" "pe(i \<mapsto> mpower path i)" "frame_add ind (mpower path i)"] d upd
    by simp
  have fn: "(\<lambda>k. if Suc i \<le> k \<and> k < n then Some (mpower path k) else (pe(i \<mapsto> mpower path i)) k)
          = (\<lambda>k. if i \<le> k \<and> k < n then Some (mpower path k) else pe k)"
    using lt by (auto simp: fun_eq_iff)
  show ?case
    using lt Suc.prems(2) step rec fn by (simp add: upt_conv_Cons)
qed

lemma effects_general_power_series:
  assumes "0 < length (columns path)" and "set (index path) = set (columns path)"
  shows "effects_general path =
           Inr ((\<lambda>k. if k < length (columns path) then Some (mpower path k) else None),
                power_series path, frame_add path (power_series path))"
proof -
  let ?n = "length (columns path)"
  have "effects_loop path [1 ..< ?n] (Map.empty(0 \<mapsto> path), const_frame (Num 0) (index path) (columns path))
      = Inr ((\<lambda>k. if 1 \<le> k \<and> k < ?n then Some (mpower path k) else (Map.empty(0 \<mapsto> path)) k),
            power_series path)"
    unfolding power_series_def
    by (rule effects_loop_upt [OF assms(2)]) simp_all
  moreover have "(\<lambda>k. if 1 \<le> k \<and> k < ?n then Some (mpower path k) else (Map.empty(0 \<mapsto> path)) k)
     = (\<lambda>k. if k < ?n then Some (mpower path k) else None)"
  proof
    fix k show "(if 1 \<le> k \<and> k < ?n then Some (mpower path k) else (Map.empty(0 \<mapsto> path)) k)
       = (if k < ?n then Some (mpower path k) else None)"
      using assms(1) by (cases k) auto
  qed
  ultimately show ?thesis
    by (simp add: effects_general_def)
qed



section \<open>The rows of the effects table\<close>

lemma frame_add_same_axes:
  "index b = index a \<Longrightarrow> columns b = columns a \<Longrightarrow>
   index (frame_add a b) = index a \<and> columns (frame_add a b) = columns a"
  by (simp add: frame_add_def frame_op_def union_labels_def)

lemma foldl_frame_add_axes:
  "(\<forall>f \<in> set fs. index f = index z \<and> columns f = columns z) \<Longrightarrow>
   index (foldl frame_add z fs) = index z \<and> columns (foldl frame_add z fs) = columns z"
proof (induction fs arbitrary: z)
  case Nil
  then show ?case by simp
next
  case (Cons f fs)
  have ax: "index (frame_add z f) = index z \<and> columns (frame_add z f) = columns z"
    using Cons.prems by (simp add: frame_add_same_axes)
  have "\<forall>g \<in> set fs. index g = index (frame_add z f) \<and> columns g = columns (frame_add z f)"
    using Cons.prems ax by simp
  from Cons.IH [OF this] ax show ?case by simp
qed

lemma power_series_axes:
  "index (power_series path) = index path \<and> columns (power_series path) = columns path"
proof -
  have "\<forall>f \<in> set (map (mpower path) [1 ..< length (columns path)]).
          index f = index (const_frame (Num 0) (index path) (columns path)) \<and>
          columns f = columns (const_frame (Num 0) (index path) (columns path))"
    by (auto simp: const_frame_def index_mpower columns_mpower)
  from foldl_frame_add_axes [OF this] show ?thesis
    by (simp add: power_series_def const_frame_def)
qed

lemma effects_matrices_axes:
  assumes sq: "set (index path) = set (columns path)"
  shows "\<exists>pe ind tot. effects_matrices path = Inr (pe, ind, tot) \<and>
           index ind = index path \<and> columns ind = columns path \<and>
           index tot = index path \<and> columns tot = columns path"
proof -
  consider (two) "length (columns path) = 2" | (none) "columns path = []"
    | (gen) "length (columns path) \<noteq> 2" "0 < length (columns path)"
    by (cases "columns path") auto
  then show ?thesis
  proof cases
    case two
    then show ?thesis by (simp add: effects_matrices_def const_frame_def)
  next
    case none
    then show ?thesis
      by (simp add: effects_matrices_def effects_general_def const_frame_def
            frame_add_def frame_op_def union_labels_def)
  next
    case gen
    have "effects_matrices path = effects_general path"
      using gen(1) by (simp add: effects_matrices_def)
    with effects_general_power_series [OF gen(2) sq] power_series_axes [of path]
    show ?thesis by (simp add: frame_add_same_axes)
  qed
qed

lemma effects_inner_filter:
  assumes ax: "index ind = index path" "columns ind = columns path"
              "index tot = index path" "columns tot = columns path"
    and f: "f \<in> set (columns path)"
  shows "set tos \<subseteq> set (index path) \<Longrightarrow>
     effects_inner path ind tot f tos acc =
       Inr (acc @ map (effect_of path ind tot f)
                    (filter (\<lambda>t. f \<noteq> t \<and> cell tot t f \<noteq> Num 0) tos))"
proof (induction tos arbitrary: acc)
  case Nil
  then show ?case by simp
next
  case (Cons t tos)
  then have t: "t \<in> set (index path)" and sub: "set tos \<subseteq> set (index path)" by auto
  have l: "loc tot t f = Inr (cell tot t f)" "loc ind t f = Inr (cell ind t f)"
          "loc path t f = Inr (cell path t f)"
    using t f ax by (simp_all add: loc_def)
  have row: "effect_row path ind tot f t = Inr (effect_of path ind tot f t)"
    by (simp add: effect_row_def l effect_of_def)
  show ?case
  proof (cases "f \<noteq> t \<and> cell tot t f \<noteq> Num 0")
    case True
    then show ?thesis
      using Cons.IH [OF sub, of "acc @ [effect_of path ind tot f t]"] by (simp add: l row)
  next
    case False
    then show ?thesis
      using Cons.IH [OF sub, of acc] by (auto simp: l)
  qed
qed

lemma effects_outer_concat:
  assumes ax: "index ind = index path" "columns ind = columns path"
              "index tot = index path" "columns tot = columns path"
    and sq: "set (columns path) \<subseteq> set (index path)"
  shows "set fs \<subseteq> set (columns path) \<Longrightarrow>
     effects_outer path ind tot fs acc =
       Inr (acc @ map (\<lambda>(f, t). effect_of path ind tot f t)
                    (filter (\<lambda>(f, t). f \<noteq> t \<and> cell tot t f \<noteq> Num 0)
                       (List.product fs (columns path))))"
proof (induction fs arbitrary: acc)
  case Nil
  then show ?case by simp
next
  case (Cons f fs)
  then have f: "f \<in> set (columns path)" and sub: "set fs \<subseteq> set (columns path)" by auto
  have inner: "effects_inner path ind tot f (columns path) acc =
       Inr (acc @ map (effect_of path ind tot f)
                    (filter (\<lambda>t. f \<noteq> t \<and> cell tot t f \<noteq> Num 0) (columns path)))"
    by (rule effects_inner_filter [OF ax f sq])
  show ?case
    by (simp add: inner Cons.IH [OF sub] filter_map comp_def)
qed

lemma effects_spec_keys:
  "map (\<lambda>e. (e_from e, e_to e)) (effects_spec path ind tot) =
     filter (\<lambda>(f, t). f \<noteq> t \<and> cell tot t f \<noteq> Num 0) (List.product (columns path) (columns path))"
  by (simp add: effects_spec_def comp_def effect_of_def case_prod_unfold)

text \<open>
  Claim C2. For a path-coefficients matrix with distinct labels, the same on both axes,
  \<open>_effects\<close> returns exactly one row for each ordered pair \<open>(from, to)\<close> with
  \<open>from \<noteq> to\<close> and total effect \<open>\<noteq> 0\<close>: the keys \<open>(from, to)\<close> of the rows are
  distinct, every such pair has a row, and every row is for such a pair and holds the
  entries at \<open>[to, from]\<close> of the direct, indirect and total matrices. No row has
  total effect 0.
\<close>

theorem effects_rows:
  assumes sq: "set (index path) = set (columns path)" and d: "distinct (columns path)"
  shows "\<exists>pe ind tot. effects_matrices path = Inr (pe, ind, tot) \<and>
     p_effects path = Inr (effects_spec path ind tot) \<and>
     distinct (map (\<lambda>e. (e_from e, e_to e)) (effects_spec path ind tot)) \<and>
     (\<forall>e \<in> set (effects_spec path ind tot).
        e_from e \<noteq> e_to e \<and> e_total e \<noteq> Num 0 \<and>
        e_direct e = cell path (e_to e) (e_from e) \<and>
        e_indirect e = cell ind (e_to e) (e_from e) \<and>
        e_total e = cell tot (e_to e) (e_from e)) \<and>
     (\<forall>f \<in> set (columns path). \<forall>t \<in> set (columns path).
        f \<noteq> t \<and> cell tot t f \<noteq> Num 0 \<longrightarrow>
        (\<exists>e \<in> set (effects_spec path ind tot). e_from e = f \<and> e_to e = t))"
proof -
  from effects_matrices_axes [OF sq] obtain pe ind tot where
    m: "effects_matrices path = Inr (pe, ind, tot)" and
    ax: "index ind = index path" "columns ind = columns path"
        "index tot = index path" "columns tot = columns path"
    by blast
  have sub: "set (columns path) \<subseteq> set (index path)" using sq by simp
  have run: "p_effects path = Inr (effects_spec path ind tot)"
    using effects_outer_concat [OF ax sub, of "columns path" "[]"]
    by (simp add: p_effects_def m effects_spec_def)
  have keys: "distinct (map (\<lambda>e. (e_from e, e_to e)) (effects_spec path ind tot))"
    unfolding effects_spec_keys using d by (simp add: distinct_product)
  have rows: "\<forall>e \<in> set (effects_spec path ind tot).
        e_from e \<noteq> e_to e \<and> e_total e \<noteq> Num 0 \<and>
        e_direct e = cell path (e_to e) (e_from e) \<and>
        e_indirect e = cell ind (e_to e) (e_from e) \<and>
        e_total e = cell tot (e_to e) (e_from e)"
    by (auto simp: effects_spec_def effect_of_def)
  have pairs: "\<forall>f \<in> set (columns path). \<forall>t \<in> set (columns path).
        f \<noteq> t \<and> cell tot t f \<noteq> Num 0 \<longrightarrow>
        (\<exists>e \<in> set (effects_spec path ind tot). e_from e = f \<and> e_to e = t)"
  proof (intro ballI impI)
    fix f t assume "f \<in> set (columns path)" "t \<in> set (columns path)"
      "f \<noteq> t \<and> cell tot t f \<noteq> Num 0"
    then have "effect_of path ind tot f t \<in> set (effects_spec path ind tot)"
      by (force simp: effects_spec_def)
    then show "\<exists>e \<in> set (effects_spec path ind tot). e_from e = f \<and> e_to e = t"
      by (rule bexI [rotated]) (simp add: effect_of_def)
  qed
  from m run keys rows pairs show ?thesis by blast
qed

theorem effects_rows_witness:
  "set (index chain3) = set (columns chain3) \<and> distinct (columns chain3) \<and>
   p_effects chain3 =
     Inr [\<lparr>e_label = ''A -> B'', e_from = ''A'', e_to = ''B'',
           e_direct = Num (1/2), e_indirect = Num 0, e_total = Num (1/2)\<rparr>,
          \<lparr>e_label = ''A -> C'', e_from = ''A'', e_to = ''C'',
           e_direct = Num 0, e_indirect = Num 2, e_total = Num 2\<rparr>,
          \<lparr>e_label = ''B -> C'', e_from = ''B'', e_to = ''C'',
           e_direct = Num 4, e_indirect = Num 0, e_total = Num 4\<rparr>]"
proof -
  have h: "set (index chain3) = set (columns chain3)" "distinct (columns chain3)"
    by (simp_all add: chain3_def)
  have m: "effects_matrices chain3 =
      Inr ((\<lambda>k. if k < length (columns chain3) then Some (mpower chain3 k) else None),
           power_series chain3, frame_add chain3 (power_series chain3))"
    using effects_general_power_series [of chain3]
    by (simp add: chain3_def effects_matrices_def)
  from effects_rows [OF h] m
  have "p_effects chain3 = Inr (effects_spec chain3 (power_series chain3) (frame_add chain3 (power_series chain3)))"
    by auto
  then show ?thesis
    using h
    by (simp add: effects_spec_def effect_of_def chain3_def power_series_def frame_add_def
          frame_op_def union_labels_def dot_cells_def const_frame_def upt_conv_Cons)
qed

section \<open>The regressions of the inner model\<close>

lemma regress_step_Inr:
  assumes "regress_step sm path scores dv self = Inr self'"
  shows "\<exists>reg rows. regression_of sm path scores dv = Inr reg \<and> p_summary dv reg = Inr rows \<and>
     self' = self\<lparr>im_path_coefficients :=
                     set_row (im_path_coefficients self) dv (predictors path dv) (params reg),
                   im_r_squared := set_loc (im_r_squared self) dv (rsquared reg),
                   im_r_squared_adj := set_loc (im_r_squared_adj self) dv
                       (adjusted (rsquared reg) (nrows scores) (row_sum path dv)),
                   im_summaries := concat_summaries (im_summaries self) rows\<rparr>"
  using assms by (auto simp: regress_step_def Let_def split: sum.splits)

text \<open>What the loop leaves untouched: the rows of the variables it does not visit.\<close>

lemma regress_loop_other:
  "regress_loop sm path scores dvs self = Inr self' \<Longrightarrow> l \<notin> set dvs \<Longrightarrow>
     s_val (im_r_squared self') l = s_val (im_r_squared self) l \<and>
     s_val (im_r_squared_adj self') l = s_val (im_r_squared_adj self) l \<and>
     cell (im_path_coefficients self') l c = cell (im_path_coefficients self) l c"
proof (induction dvs arbitrary: self)
  case Nil
  then show ?case by simp
next
  case (Cons d ds)
  from Cons.prems(1) obtain s1 where
    s1: "regress_step sm path scores d self = Inr s1" and
    rest: "regress_loop sm path scores ds s1 = Inr self'"
    by (auto split: sum.splits)
  from Cons.prems(2) have ne: "l \<noteq> d" and nin: "l \<notin> set ds" by auto
  from regress_step_Inr [OF s1] ne have
    "s_val (im_r_squared s1) l = s_val (im_r_squared self) l \<and>
     s_val (im_r_squared_adj s1) l = s_val (im_r_squared_adj self) l \<and>
     cell (im_path_coefficients s1) l c = cell (im_path_coefficients self) l c"
    by (auto simp: set_loc_def set_row_def)
  with Cons.IH [OF rest nin] show ?case by simp
qed

lemma regress_loop_fixed:
  "regress_loop sm path scores dvs self = Inr self' \<Longrightarrow>
     im_endogenous self' = im_endogenous self \<and> im_effects self' = im_effects self \<and>
     s_index (im_r_squared self') = s_index (im_r_squared self) \<and>
     s_index (im_r_squared_adj self') = s_index (im_r_squared_adj self) \<and>
     index (im_path_coefficients self') = index (im_path_coefficients self) \<and>
     columns (im_path_coefficients self') = columns (im_path_coefficients self)"
proof (induction dvs arbitrary: self)
  case Nil
  then show ?case by simp
next
  case (Cons d ds)
  from Cons.prems obtain s1 where
    s1: "regress_step sm path scores d self = Inr s1" and
    rest: "regress_loop sm path scores ds s1 = Inr self'"
    by (auto split: sum.splits)
  from regress_step_Inr [OF s1] have
    "im_endogenous s1 = im_endogenous self \<and> im_effects s1 = im_effects self \<and>
     s_index (im_r_squared s1) = s_index (im_r_squared self) \<and>
     s_index (im_r_squared_adj s1) = s_index (im_r_squared_adj self) \<and>
     index (im_path_coefficients s1) = index (im_path_coefficients self) \<and>
     columns (im_path_coefficients s1) = columns (im_path_coefficients self)"
    by (auto simp: set_loc_def set_row_def)
  with Cons.IH [OF rest] show ?case by simp
qed

text \<open>What the loop stores for a variable it visits.\<close>

lemma regress_loop_visited:
  "regress_loop sm path scores dvs self = Inr self' \<Longrightarrow> l \<in> set dvs \<Longrightarrow>
     \<exists>reg. regression_of sm path scores l = Inr reg \<and>
       s_val (im_r_squared self') l = rsquared reg \<and>
       s_val (im_r_squared_adj self') l =
         adjusted (rsquared reg) (nrows scores) (row_sum path l) \<and>
       (\<forall>c. cell (im_path_coefficients self') l c =
          (if c \<in> set (predictors path l) then series_at (params reg) c
           else cell (im_path_coefficients self) l c))"
proof (induction dvs arbitrary: self)
  case Nil
  then show ?case by simp
next
  case (Cons d ds)
  from Cons.prems(1) obtain s1 where
    s1: "regress_step sm path scores d self = Inr s1" and
    rest: "regress_loop sm path scores ds s1 = Inr self'"
    by (auto split: sum.splits)
  from regress_step_Inr [OF s1] obtain reg where
    reg: "regression_of sm path scores d = Inr reg" and
    v1: "s_val (im_r_squared s1) d = rsquared reg"
        "s_val (im_r_squared_adj s1) d = adjusted (rsquared reg) (nrows scores) (row_sum path d)" and
    c1: "\<And>r c. cell (im_path_coefficients s1) r c =
          (if r = d \<and> c \<in> set (predictors path d) then series_at (params reg) c
           else cell (im_path_coefficients self) r c)"
    by (auto simp: set_loc_def set_row_def)
  show ?case
  proof (cases "l \<in> set ds")
    case True
    from Cons.IH [OF rest True] obtain reg' where
      r': "regression_of sm path scores l = Inr reg'"
          "s_val (im_r_squared self') l = rsquared reg'"
          "s_val (im_r_squared_adj self') l =
             adjusted (rsquared reg') (nrows scores) (row_sum path l)" and
      c': "\<And>c. cell (im_path_coefficients self') l c =
          (if c \<in> set (predictors path l) then series_at (params reg') c
           else cell (im_path_coefficients s1) l c)"
      by blast
    have "\<And>c. cell (im_path_coefficients self') l c =
          (if c \<in> set (predictors path l) then series_at (params reg') c
           else cell (im_path_coefficients self) l c)"
      using c' c1 by auto
    with r' show ?thesis by blast
  next
    case False
    with Cons.prems(2) have ld: "l = d" by simp
    from regress_loop_other [OF rest False] have
      "s_val (im_r_squared self') l = s_val (im_r_squared s1) l"
      "s_val (im_r_squared_adj self') l = s_val (im_r_squared_adj s1) l"
      "\<And>c. cell (im_path_coefficients self') l c = cell (im_path_coefficients s1) l c"
      by blast+
    with reg v1 c1 ld show ?thesis by auto
  qed
qed

lemma regress_loop_summaries:
  "regress_loop sm path scores dvs self = Inr self' \<Longrightarrow> dvs \<noteq> [] \<or> im_summaries self \<noteq> None \<Longrightarrow>
     im_summaries self' \<noteq> None"
proof (induction dvs arbitrary: self)
  case Nil
  then show ?case by simp
next
  case (Cons d ds)
  from Cons.prems(1) obtain s1 where
    s1: "regress_step sm path scores d self = Inr s1" and
    rest: "regress_loop sm path scores ds s1 = Inr self'"
    by (auto split: sum.splits)
  from regress_step_Inr [OF s1] have "im_summaries s1 \<noteq> None"
    by (auto simp: concat_summaries_def split: option.splits)
  with Cons.IH [OF rest] show ?case by simp
qed

lemma InnerModel_Inr:
  assumes "InnerModel sm path scores = Inr self"
  shows "\<exists>s0 effs. regress_loop sm path scores (endogenous_of path) (init_obj path) = Inr s0 \<and>
           p_effects (im_path_coefficients s0) = Inr effs \<and> self = s0\<lparr>im_effects := effs\<rparr>"
  using assms by (auto simp: InnerModel_def split: sum.splits)

text \<open>The three tables of a constructed inner model, row by row.\<close>

lemma InnerModel_exogenous:
  assumes ok: "InnerModel sm path scores = Inr self" and l: "l \<notin> set (endogenous_of path)"
  shows "s_val (im_r_squared self) l = Num 0 \<and> s_val (im_r_squared_adj self) l = Num 0 \<and>
         cell (im_path_coefficients self) l c = Num 0"
proof -
  from InnerModel_Inr [OF ok] obtain s0 effs where
    loop: "regress_loop sm path scores (endogenous_of path) (init_obj path) = Inr s0" and
    self: "self = s0\<lparr>im_effects := effs\<rparr>" by blast
  from regress_loop_other [OF loop l, of c] self show ?thesis
    by (simp add: init_obj_def const_series_def const_frame_def)
qed

lemma InnerModel_endogenous:
  assumes ok: "InnerModel sm path scores = Inr self" and l: "l \<in> set (endogenous_of path)"
  shows "\<exists>reg. regression_of sm path scores l = Inr reg \<and>
       s_val (im_r_squared self) l = rsquared reg \<and>
       s_val (im_r_squared_adj self) l =
         adjusted (rsquared reg) (nrows scores) (row_sum path l) \<and>
       (\<forall>c. cell (im_path_coefficients self) l c =
          (if c \<in> set (predictors path l) then series_at (params reg) c else Num 0))"
proof -
  from InnerModel_Inr [OF ok] obtain s0 effs where
    loop: "regress_loop sm path scores (endogenous_of path) (init_obj path) = Inr s0" and
    self: "self = s0\<lparr>im_effects := effs\<rparr>" by blast
  have init: "\<And>c. cell (im_path_coefficients (init_obj path)) l c = Num 0"
    by (simp add: init_obj_def const_frame_def)
  from regress_loop_visited [OF loop l] obtain reg where
    "regression_of sm path scores l = Inr reg"
    "s_val (im_r_squared s0) l = rsquared reg"
    "s_val (im_r_squared_adj s0) l = adjusted (rsquared reg) (nrows scores) (row_sum path l)"
    "\<And>c. cell (im_path_coefficients s0) l c =
          (if c \<in> set (predictors path l) then series_at (params reg) c
           else cell (im_path_coefficients (init_obj path)) l c)"
    by blast
  with self init show ?thesis by simp
qed

lemma InnerModel_fixed:
  assumes ok: "InnerModel sm path scores = Inr self"
  shows "im_endogenous self = endogenous_of path \<and>
         s_index (im_r_squared self) = index path \<and> s_index (im_r_squared_adj self) = index path \<and>
         index (im_path_coefficients self) = index path \<and>
         columns (im_path_coefficients self) = columns path"
proof -
  from InnerModel_Inr [OF ok] obtain s0 effs where
    loop: "regress_loop sm path scores (endogenous_of path) (init_obj path) = Inr s0" and
    self: "self = s0\<lparr>im_effects := effs\<rparr>" by blast
  from regress_loop_fixed [OF loop] self show ?thesis
    by (simp add: init_obj_def const_series_def const_frame_def)
qed

section \<open>Row sums of a path matrix\<close>

lemma sum_skipna_binary:
  "(\<forall>c \<in> set cs. g c = Num 0 \<or> g c = Num 1) \<Longrightarrow>
   sum_skipna (map g cs) = Num (real (length (filter (\<lambda>c. g c = Num 1) cs)))"
proof (induction cs)
  case Nil
  then show ?case by (simp add: sum_skipna_def)
next
  case (Cons c cs)
  then have ih: "sum_skipna (map g cs) = Num (real (length (filter (\<lambda>c. g c = Num 1) cs)))"
    by simp
  from Cons.prems have "g c = Num 0 \<or> g c = Num 1" by simp
  then show ?case
    using ih by (auto simp: sum_skipna_def)
qed

lemma row_sum_binary:
  "(\<forall>c \<in> set (columns path). cell path dv c = Num 0 \<or> cell path dv c = Num 1) \<Longrightarrow>
   row_sum path dv = Num (real (length (predictors path dv)))"
  unfolding row_sum_def predictors_def by (rule sum_skipna_binary)

lemma sum_skipna_nonneg:
  "(\<forall>c \<in> set cs. \<exists>v. g c = Num v \<and> 0 \<le> v) \<Longrightarrow>
   \<exists>s. sum_skipna (map g cs) = Num s \<and> 0 \<le> s"
proof (induction cs)
  case Nil
  then show ?case by (simp add: sum_skipna_def)
next
  case (Cons c cs)
  then obtain s where s: "sum_skipna (map g cs) = Num s" "0 \<le> s" by auto
  from Cons.prems obtain v where v: "g c = Num v" "0 \<le> v" by auto
  from s v show ?case by (auto simp: sum_skipna_def)
qed

lemma adjusted_finite:
  "real n - s - 1 \<noteq> 0 \<Longrightarrow>
   adjusted (Num r) n (Num s) = Num (1 - (1 - r) * (real n - 1) / (real n - s - 1))"
  by (simp add: adjusted_def fsub_def)

text \<open>The regression of \<open>dv\<close> written out: both lookups succeed, and the library fits the
  column of \<open>dv\<close> on the columns of its predictors with the constant added.\<close>

lemma regression_of_Inr_iff:
  "regression_of sm path scores dv = Inr reg \<longleftrightarrow>
     dv \<in> set (tcolumns scores) \<and> set (predictors path dv) \<subseteq> set (tcolumns scores) \<and>
     loc_columns scores (predictors path dv) = Inr (scores\<lparr>tcolumns := predictors path dv\<rparr>) \<and>
     loc_column scores dv = Inr (tcolumn scores dv) \<and>
     ols_fit sm (tcolumn scores dv) (add_constant sm (scores\<lparr>tcolumns := predictors path dv\<rparr>))
       = Inr reg"
  by (auto simp: regression_of_def loc_columns_def loc_column_def Let_def)

text \<open>
  Claim C3. For an endogenous latent variable \<open>dv\<close> of a constructed inner model, with
  \<open>p\<close> predictors (the entries 1 of its row of the 0/1 path matrix) and \<open>n\<close> cases,
  \<open>n - p - 1 \<noteq> 0\<close>: \<open>dv\<close> and its predictors are columns of \<open>scores\<close>, the library has
  fitted the column \<open>scores[dv]\<close> on the predictors' columns with the constant added, the
  stored \<open>R\<^sup>2\<close> is the \<open>rsquared\<close> of that fit, and the stored adjusted \<open>R\<^sup>2\<close> is
  \<open>1 - (1 - R\<^sup>2) (n - 1) / (n - p - 1)\<close>.
\<close>

theorem adjusted_r_squared:
  assumes ok: "InnerModel sm path scores = Inr self"
    and dv: "dv \<in> set (endogenous_of path)"
    and bin: "\<forall>c \<in> set (columns path). cell path dv c = Num 0 \<or> cell path dv c = Num 1"
    and p: "p = length (predictors path dv)" and n: "n = nrows scores"
    and ne: "real n - real p - 1 \<noteq> 0"
  shows "\<exists>reg. regression_of sm path scores dv = Inr reg \<and>
           predictors path dv = filter (\<lambda>c. cell path dv c = Num 1) (columns path) \<and>
           dv \<in> set (tcolumns scores) \<and> set (predictors path dv) \<subseteq> set (tcolumns scores) \<and>
           loc_columns scores (predictors path dv) = Inr (scores\<lparr>tcolumns := predictors path dv\<rparr>) \<and>
           loc_column scores dv = Inr (tcolumn scores dv) \<and>
           ols_fit sm (tcolumn scores dv)
             (add_constant sm (scores\<lparr>tcolumns := predictors path dv\<rparr>)) = Inr reg \<and>
           s_val (im_r_squared self) dv = rsquared reg \<and>
           s_val (im_r_squared_adj self) dv =
             fsub (Num 1) (fdiv (fmul (fsub (Num 1) (rsquared reg)) (Num (real n - 1)))
                                (Num (real n - real p - 1))) \<and>
           (\<forall>r. rsquared reg = Num r \<longrightarrow>
              s_val (im_r_squared_adj self) dv =
                Num (1 - (1 - r) * (real n - 1) / (real n - real p - 1)))"
proof -
  from InnerModel_endogenous [OF ok dv] obtain reg where
    reg: "regression_of sm path scores dv = Inr reg"
         "s_val (im_r_squared self) dv = rsquared reg"
         "s_val (im_r_squared_adj self) dv = adjusted (rsquared reg) (nrows scores) (row_sum path dv)"
    by blast
  have rs: "row_sum path dv = Num (real p)"
    using row_sum_binary [OF bin] p by simp
  have a: "adjusted (rsquared reg) (nrows scores) (row_sum path dv) =
      fsub (Num 1) (fdiv (fmul (fsub (Num 1) (rsquared reg)) (Num (real n - 1)))
                                (Num (real n - real p - 1)))"
    by (simp add: adjusted_def rs n fsub_def)
  have b: "\<forall>r. rsquared reg = Num r \<longrightarrow>
      adjusted (rsquared reg) (nrows scores) (row_sum path dv) =
        Num (1 - (1 - r) * (real n - 1) / (real n - real p - 1))"
    using ne by (simp add: rs n adjusted_finite)
  have fit: "dv \<in> set (tcolumns scores) \<and> set (predictors path dv) \<subseteq> set (tcolumns scores) \<and>
     loc_columns scores (predictors path dv) = Inr (scores\<lparr>tcolumns := predictors path dv\<rparr>) \<and>
     loc_column scores dv = Inr (tcolumn scores dv) \<and>
     ols_fit sm (tcolumn scores dv) (add_constant sm (scores\<lparr>tcolumns := predictors path dv\<rparr>))
       = Inr reg"
    using reg(1) by (simp only: regression_of_Inr_iff)
  have pr: "predictors path dv = filter (\<lambda>c. cell path dv c = Num 1) (columns path)"
    by (simp add: predictors_def)
  show ?thesis
  proof (intro exI [of _ reg] conjI)
    show "\<forall>r. rsquared reg = Num r \<longrightarrow>
      s_val (im_r_squared_adj self) dv = Num (1 - (1 - r) * (real n - 1) / (real n - real p - 1))"
      using b reg(3) by simp
  qed (use reg a fit pr in simp_all)
qed

theorem adjusted_r_squared_witness:
  "\<exists>self. InnerModel stub_sm path3 scores3 = Inr self \<and>
     ''C'' \<in> set (endogenous_of path3) \<and> predictors path3 ''C'' = [''A'', ''B''] \<and>
     ols_fit stub_sm (tcolumn scores3 ''C'')
       (add_constant stub_sm (scores3\<lparr>tcolumns := [''A'', ''B'']\<rparr>))
       = Inr (stub_regression [''const'', ''A'', ''B'']) \<and>
     s_val (im_r_squared self) ''C'' = Num (3/4) \<and>
     s_val (im_r_squared_adj self) ''C'' = Num (1/2)"
proof -
  have ex: "\<exists>self. InnerModel stub_sm path3 scores3 = Inr self"
    by (simp add: InnerModel_def endogenous_of_def row_sum_def sum_skipna_def path3_def
          regress_step_def regression_of_def predictors_def loc_columns_def loc_column_def
          scores3_def stub_sm_def stub_regression_def p_summary_def const_series_def
          p_effects_def effects_matrices_def effects_general_def upt_conv_Cons dot_def
          set_row_def init_obj_def const_frame_def dot_cells_def union_labels_def
          frame_add_def frame_op_def loc_def effect_row_def series_at_def Let_def)
  then obtain self where ok: "InnerModel stub_sm path3 scores3 = Inr self" by blast
  have dv: "''C'' \<in> set (endogenous_of path3)"
    by (simp add: endogenous_of_def row_sum_def sum_skipna_def path3_def)
  have bin: "\<forall>c \<in> set (columns path3). cell path3 ''C'' c = Num 0 \<or> cell path3 ''C'' c = Num 1"
    by (simp add: path3_def)
  have p: "2 = length (predictors path3 ''C'')" by (simp add: predictors_def path3_def)
  have n: "5 = nrows scores3" by (simp add: scores3_def)
  have pr: "predictors path3 ''C'' = [''A'', ''B'']" by (simp add: predictors_def path3_def)
  have fit: "ols_fit stub_sm (tcolumn scores3 ''C'')
       (add_constant stub_sm (scores3\<lparr>tcolumns := [''A'', ''B'']\<rparr>))
       = Inr (stub_regression [''const'', ''A'', ''B''])"
    by (simp add: scores3_def stub_sm_def)
  from adjusted_r_squared [OF ok dv bin p n] obtain reg where
    r: "ols_fit stub_sm (tcolumn scores3 ''C'')
       (add_constant stub_sm (scores3\<lparr>tcolumns := predictors path3 ''C''\<rparr>)) = Inr reg"
    "s_val (im_r_squared self) ''C'' = rsquared reg"
    "s_val (im_r_squared_adj self) ''C'' =
       fsub (Num 1) (fdiv (fmul (fsub (Num 1) (rsquared reg)) (Num (real (5::nat) - 1)))
                          (Num (real (5::nat) - real (2::nat) - 1)))"
    by auto
  from r(1) fit have "reg = stub_regression [''const'', ''A'', ''B'']" by (simp add: pr)
  then have "rsquared reg = Num (3/4)" by (simp add: stub_regression_def)
  with r(2,3)
  have "s_val (im_r_squared self) ''C'' = Num (3/4) \<and> s_val (im_r_squared_adj self) ''C'' = Num (1/2)"
    by (simp add: fsub_def)
  with ok dv pr fit show ?thesis by auto
qed

text \<open>
  Claim C4. For an endogenous latent variable of a constructed inner model with
  \<open>p > 0\<close> predictors and \<open>n\<close> cases, \<open>n - p - 1 > 0\<close>, whose stored \<open>R\<^sup>2\<close> is a
  number \<open>r \<le> 1\<close> (as a coefficient of determination is), the adjusted \<open>R\<^sup>2\<close> is a
  number not greater than \<open>r\<close>.
\<close>

theorem adjusted_le_r_squared:
  assumes ok: "InnerModel sm path scores = Inr self"
    and dv: "dv \<in> set (endogenous_of path)"
    and bin: "\<forall>c \<in> set (columns path). cell path dv c = Num 0 \<or> cell path dv c = Num 1"
    and p: "p = length (predictors path dv)" and n: "n = nrows scores"
    and pos: "0 < p" "0 < real n - real p - 1"
    and r: "s_val (im_r_squared self) dv = Num r" "r \<le> 1"
  shows "\<exists>a. s_val (im_r_squared_adj self) dv = Num a \<and> a \<le> r"
proof -
  from InnerModel_endogenous [OF ok dv] obtain reg where
    reg: "s_val (im_r_squared self) dv = rsquared (reg :: regression)"
         "s_val (im_r_squared_adj self) dv = adjusted (rsquared reg) (nrows scores) (row_sum path dv)"
    by blast
  have rs: "row_sum path dv = Num (real p)"
    using row_sum_binary [OF bin] p by simp
  let ?d = "real n - real p - 1"
  have rr: "rsquared reg = Num r" using reg(1) r(1) by simp
  have "?d \<noteq> 0" using pos(2) by simp
  from adjusted_finite [OF this, of r]
  have adj: "s_val (im_r_squared_adj self) dv = Num (1 - (1 - r) * (real n - 1) / ?d)"
    using reg(2) by (simp add: rs n rr)
  have "1 \<le> (real n - 1) / ?d"
    using pos by (simp add: field_simps)
  then have "(1 - r) * 1 \<le> (1 - r) * ((real n - 1) / ?d)"
    using r(2) by (intro mult_left_mono) simp_all
  then have "1 - (1 - r) * (real n - 1) / ?d \<le> r" by simp
  with adj show ?thesis by blast
qed

theorem adjusted_le_r_squared_witness:
  "\<exists>self. InnerModel stub_sm path3 scores3 = Inr self \<and>
     ''C'' \<in> set (endogenous_of path3) \<and>
     s_val (im_r_squared self) ''C'' = Num (3/4) \<and>
     (\<exists>a. s_val (im_r_squared_adj self) ''C'' = Num a \<and> a \<le> 3/4)"
proof -
  have ex: "\<exists>self. InnerModel stub_sm path3 scores3 = Inr self"
    by (simp add: InnerModel_def endogenous_of_def row_sum_def sum_skipna_def path3_def
          regress_step_def regression_of_def predictors_def loc_columns_def loc_column_def
          scores3_def stub_sm_def stub_regression_def p_summary_def const_series_def
          p_effects_def effects_matrices_def effects_general_def upt_conv_Cons dot_def
          set_row_def init_obj_def const_frame_def dot_cells_def union_labels_def
          frame_add_def frame_op_def loc_def effect_row_def series_at_def Let_def)
  then obtain self where ok: "InnerModel stub_sm path3 scores3 = Inr self" by blast
  have dv: "''C'' \<in> set (endogenous_of path3)"
    by (simp add: endogenous_of_def row_sum_def sum_skipna_def path3_def)
  have bin: "\<forall>c \<in> set (columns path3). cell path3 ''C'' c = Num 0 \<or> cell path3 ''C'' c = Num 1"
    by (simp add: path3_def)
  have p: "2 = length (predictors path3 ''C'')" by (simp add: predictors_def path3_def)
  have n: "5 = nrows scores3" by (simp add: scores3_def)
  have reg: "regression_of stub_sm path3 scores3 ''C'' = Inr (stub_regression [''const'', ''A'', ''B''])"
    by (simp add: regression_of_def predictors_def loc_columns_def loc_column_def
          scores3_def stub_sm_def path3_def)
  have r: "s_val (im_r_squared self) ''C'' = Num (3/4)"
    using InnerModel_endogenous [OF ok dv] reg by (auto simp: stub_regression_def)
  have "\<exists>a. s_val (im_r_squared_adj self) ''C'' = Num a \<and> a \<le> 3/4"
    by (rule adjusted_le_r_squared [OF ok dv bin p n _ _ r]) simp_all
  with ok dv r show ?thesis by auto
qed

section \<open>Endogenous and exogenous variables\<close>

lemma row_sum_nonneg:
  "(\<forall>c \<in> set (columns path). \<exists>v. cell path dv c = Num v \<and> 0 \<le> v) \<Longrightarrow>
   \<exists>s. row_sum path dv = Num s \<and> 0 \<le> s"
  unfolding row_sum_def by (rule sum_skipna_nonneg)

text \<open>The summary table holds rows for the variables of the loop only.\<close>

lemma regress_loop_summary_targets:
  "regress_loop sm path scores dvs self = Inr self' \<Longrightarrow> set dvs \<subseteq> S \<Longrightarrow>
   (\<forall>rows. im_summaries self = Some rows \<longrightarrow> (\<forall>r \<in> set rows. sr_to r \<in> S)) \<Longrightarrow>
   (\<forall>rows. im_summaries self' = Some rows \<longrightarrow> (\<forall>r \<in> set rows. sr_to r \<in> S))"
proof (induction dvs arbitrary: self)
  case Nil
  then show ?case by simp
next
  case (Cons d ds)
  from Cons.prems(1) obtain s1 where
    s1: "regress_step sm path scores d self = Inr s1" and
    rest: "regress_loop sm path scores ds s1 = Inr self'"
    by (auto split: sum.splits)
  from regress_step_Inr [OF s1] obtain reg rows where
    rows: "p_summary d reg = Inr rows" and
    sm1: "im_summaries s1 = concat_summaries (im_summaries self) rows"
    by auto
  have new: "\<forall>r \<in> set rows. sr_to r = d"
    using rows by (auto simp: p_summary_def split: if_splits)
  have d: "d \<in> S" and ds: "set ds \<subseteq> S" using Cons.prems(2) by auto
  have "\<forall>rows'. im_summaries s1 = Some rows' \<longrightarrow> (\<forall>r \<in> set rows'. sr_to r \<in> S)"
    using Cons.prems(3) new d
    by (auto simp: sm1 concat_summaries_def split: option.splits)
  from Cons.IH [OF rest ds this] show ?case .
qed

lemma InnerModel_summary_targets:
  assumes ok: "InnerModel sm path scores = Inr self" and rows: "im_summaries self = Some rows"
    and r: "r \<in> set rows"
  shows "sr_to r \<in> set (endogenous_of path)"
proof -
  from InnerModel_Inr [OF ok] obtain s0 effs where
    loop: "regress_loop sm path scores (endogenous_of path) (init_obj path) = Inr s0" and
    self: "self = s0\<lparr>im_effects := effs\<rparr>" by blast
  have "\<forall>rows. im_summaries s0 = Some rows \<longrightarrow>
          (\<forall>r \<in> set rows. sr_to r \<in> set (endogenous_of path))"
    by (rule regress_loop_summary_targets [OF loop]) (simp_all add: init_obj_def)
  with rows r self show ?thesis by simp
qed

text \<open>
  Claim C5. For a path matrix with entries \<open>\<ge> 0\<close> (0/1 in the data model), the loop of
  the constructor runs over exactly the rows with row sum \<open>> 0\<close>. Each of them is
  regressed: it and its predictors are columns of \<open>scores\<close>, the library has fitted the
  column \<open>scores[dv]\<close> on the predictors' columns with the constant added, and the
  \<open>R\<^sup>2\<close>, the adjusted \<open>R\<^sup>2\<close> and the coefficients of that fit are what the model
  stores for the row. A variable with row sum 0 is not regressed: it keeps
  \<open>R\<^sup>2 = 0\<close>, adjusted \<open>R\<^sup>2 = 0\<close> and a row of zeros in the path-coefficients matrix,
  and no row of the summary table has it as its target.
\<close>

theorem endogenous_regressed:
  assumes ok: "InnerModel sm path scores = Inr self"
    and nonneg: "\<forall>r \<in> set (index path). \<forall>c \<in> set (columns path).
                   \<exists>v. cell path r c = Num v \<and> 0 \<le> v"
  shows "endogenous_of path = filter (\<lambda>dv. fgt0 (row_sum path dv)) (index path) \<and>
         im_endogenous self = endogenous_of path \<and>
         (\<forall>dv \<in> set (index path). fgt0 (row_sum path dv) \<longrightarrow>
            dv \<in> set (tcolumns scores) \<and> set (predictors path dv) \<subseteq> set (tcolumns scores) \<and>
            predictors path dv = filter (\<lambda>c. cell path dv c = Num 1) (columns path) \<and>
            loc_columns scores (predictors path dv) = Inr (scores\<lparr>tcolumns := predictors path dv\<rparr>) \<and>
            loc_column scores dv = Inr (tcolumn scores dv) \<and>
            (\<exists>reg. ols_fit sm (tcolumn scores dv)
                     (add_constant sm (scores\<lparr>tcolumns := predictors path dv\<rparr>)) = Inr reg \<and>
                   regression_of sm path scores dv = Inr reg \<and>
                   s_val (im_r_squared self) dv = rsquared reg \<and>
                   s_val (im_r_squared_adj self) dv =
                     adjusted (rsquared reg) (nrows scores) (row_sum path dv) \<and>
                   (\<forall>c \<in> set (columns path).
                      cell (im_path_coefficients self) dv c =
                        (if cell path dv c = Num 1 then series_at (params reg) c else Num 0)))) \<and>
         (\<forall>dv \<in> set (index path). row_sum path dv = Num 0 \<longrightarrow>
            s_val (im_r_squared self) dv = Num 0 \<and>
            s_val (im_r_squared_adj self) dv = Num 0 \<and>
            (\<forall>c \<in> set (columns path). cell (im_path_coefficients self) dv c = Num 0) \<and>
            (\<forall>rows. im_summaries self = Some rows \<longrightarrow> (\<forall>r \<in> set rows. sr_to r \<noteq> dv)))"
proof -
  have iff: "\<And>dv. dv \<in> set (index path) \<Longrightarrow> (row_sum path dv \<noteq> Num 0) = fgt0 (row_sum path dv)"
  proof -
    fix dv assume "dv \<in> set (index path)"
    with nonneg have "\<forall>c \<in> set (columns path). \<exists>v. cell path dv c = Num v \<and> 0 \<le> v" by simp
    from row_sum_nonneg [OF this] obtain s where "row_sum path dv = Num s" "0 \<le> s" by blast
    then show "(row_sum path dv \<noteq> Num 0) = fgt0 (row_sum path dv)" by auto
  qed
  have e: "endogenous_of path = filter (\<lambda>dv. fgt0 (row_sum path dv)) (index path)"
    unfolding endogenous_of_def by (rule filter_cong) (simp_all add: iff)
  have en: "\<forall>dv \<in> set (index path). fgt0 (row_sum path dv) \<longrightarrow>
            dv \<in> set (tcolumns scores) \<and> set (predictors path dv) \<subseteq> set (tcolumns scores) \<and>
            predictors path dv = filter (\<lambda>c. cell path dv c = Num 1) (columns path) \<and>
            loc_columns scores (predictors path dv) = Inr (scores\<lparr>tcolumns := predictors path dv\<rparr>) \<and>
            loc_column scores dv = Inr (tcolumn scores dv) \<and>
            (\<exists>reg. ols_fit sm (tcolumn scores dv)
                     (add_constant sm (scores\<lparr>tcolumns := predictors path dv\<rparr>)) = Inr reg \<and>
                   regression_of sm path scores dv = Inr reg \<and>
                   s_val (im_r_squared self) dv = rsquared reg \<and>
                   s_val (im_r_squared_adj self) dv =
                     adjusted (rsquared reg) (nrows scores) (row_sum path dv) \<and>
                   (\<forall>c \<in> set (columns path).
                      cell (im_path_coefficients self) dv c =
                        (if cell path dv c = Num 1 then series_at (params reg) c else Num 0)))"
  proof (intro ballI impI)
    fix dv assume "dv \<in> set (index path)" "fgt0 (row_sum path dv)"
    then have "dv \<in> set (endogenous_of path)" by (simp add: e)
    from InnerModel_endogenous [OF ok this] obtain reg where
      reg: "regression_of sm path scores dv = Inr reg"
           "s_val (im_r_squared self) dv = rsquared reg"
           "s_val (im_r_squared_adj self) dv =
              adjusted (rsquared reg) (nrows scores) (row_sum path dv)" and
      cells: "\<And>c. cell (im_path_coefficients self) dv c =
          (if c \<in> set (predictors path dv) then series_at (params reg) c else Num 0)"
      by blast
    have fit: "dv \<in> set (tcolumns scores) \<and> set (predictors path dv) \<subseteq> set (tcolumns scores) \<and>
       loc_columns scores (predictors path dv) = Inr (scores\<lparr>tcolumns := predictors path dv\<rparr>) \<and>
       loc_column scores dv = Inr (tcolumn scores dv) \<and>
       ols_fit sm (tcolumn scores dv) (add_constant sm (scores\<lparr>tcolumns := predictors path dv\<rparr>))
         = Inr reg"
      using reg(1) by (simp only: regression_of_Inr_iff)
    have pr: "predictors path dv = filter (\<lambda>c. cell path dv c = Num 1) (columns path)"
      by (simp add: predictors_def)
    have pc: "\<forall>c \<in> set (columns path).
                cell (im_path_coefficients self) dv c =
                  (if cell path dv c = Num 1 then series_at (params reg) c else Num 0)"
      by (simp add: cells predictors_def)
    from fit pr reg pc
    show "dv \<in> set (tcolumns scores) \<and> set (predictors path dv) \<subseteq> set (tcolumns scores) \<and>
            predictors path dv = filter (\<lambda>c. cell path dv c = Num 1) (columns path) \<and>
            loc_columns scores (predictors path dv) = Inr (scores\<lparr>tcolumns := predictors path dv\<rparr>) \<and>
            loc_column scores dv = Inr (tcolumn scores dv) \<and>
            (\<exists>reg. ols_fit sm (tcolumn scores dv)
                     (add_constant sm (scores\<lparr>tcolumns := predictors path dv\<rparr>)) = Inr reg \<and>
                   regression_of sm path scores dv = Inr reg \<and>
                   s_val (im_r_squared self) dv = rsquared reg \<and>
                   s_val (im_r_squared_adj self) dv =
                     adjusted (rsquared reg) (nrows scores) (row_sum path dv) \<and>
                   (\<forall>c \<in> set (columns path).
                      cell (im_path_coefficients self) dv c =
                        (if cell path dv c = Num 1 then series_at (params reg) c else Num 0)))"
      by blast
  qed
  have ex: "\<forall>dv \<in> set (index path). row_sum path dv = Num 0 \<longrightarrow>
            s_val (im_r_squared self) dv = Num 0 \<and>
            s_val (im_r_squared_adj self) dv = Num 0 \<and>
            (\<forall>c \<in> set (columns path). cell (im_path_coefficients self) dv c = Num 0) \<and>
            (\<forall>rows. im_summaries self = Some rows \<longrightarrow> (\<forall>r \<in> set rows. sr_to r \<noteq> dv))"
  proof (intro ballI impI)
    fix dv assume "dv \<in> set (index path)" "row_sum path dv = Num 0"
    then have nin: "dv \<notin> set (endogenous_of path)" by (simp add: endogenous_of_def)
    have "\<forall>rows. im_summaries self = Some rows \<longrightarrow> (\<forall>r \<in> set rows. sr_to r \<noteq> dv)"
      using InnerModel_summary_targets [OF ok] nin by blast
    with InnerModel_exogenous [OF ok nin]
    show "s_val (im_r_squared self) dv = Num 0 \<and>
            s_val (im_r_squared_adj self) dv = Num 0 \<and>
            (\<forall>c \<in> set (columns path). cell (im_path_coefficients self) dv c = Num 0) \<and>
            (\<forall>rows. im_summaries self = Some rows \<longrightarrow> (\<forall>r \<in> set rows. sr_to r \<noteq> dv))"
      by blast
  qed
  from InnerModel_fixed [OF ok] have "im_endogenous self = endogenous_of path" by simp
  with e en ex show ?thesis by (intro conjI)
qed

theorem endogenous_regressed_witness:
  "\<exists>self. InnerModel stub_sm path3 scores3 = Inr self \<and>
     im_endogenous self = [''B'', ''C''] \<and> row_sum path3 ''A'' = Num 0 \<and>
     ols_fit stub_sm (tcolumn scores3 ''B'') (add_constant stub_sm (scores3\<lparr>tcolumns := [''A'']\<rparr>))
       = Inr (stub_regression [''const'', ''A'']) \<and>
     s_val (im_r_squared self) ''B'' = Num (2/3) \<and>
     cell (im_path_coefficients self) ''B'' ''A'' = Num (1/2) \<and>
     cell (im_path_coefficients self) ''B'' ''C'' = Num 0 \<and>
     s_val (im_r_squared self) ''A'' = Num 0 \<and> s_val (im_r_squared_adj self) ''A'' = Num 0 \<and>
     cell (im_path_coefficients self) ''A'' ''B'' = Num 0"
proof -
  have ex: "\<exists>self. InnerModel stub_sm path3 scores3 = Inr self"
    by (simp add: InnerModel_def endogenous_of_def row_sum_def sum_skipna_def path3_def
          regress_step_def regression_of_def predictors_def loc_columns_def loc_column_def
          scores3_def stub_sm_def stub_regression_def p_summary_def const_series_def
          p_effects_def effects_matrices_def effects_general_def upt_conv_Cons dot_def
          set_row_def init_obj_def const_frame_def dot_cells_def union_labels_def
          frame_add_def frame_op_def loc_def effect_row_def series_at_def Let_def)
  then obtain self where ok: "InnerModel stub_sm path3 scores3 = Inr self" by blast
  have nonneg: "\<forall>r \<in> set (index path3). \<forall>c \<in> set (columns path3).
                   \<exists>v. cell path3 r c = Num v \<and> 0 \<le> v"
    by (simp add: path3_def)
  have rs: "row_sum path3 ''A'' = Num 0" "fgt0 (row_sum path3 ''B'')" "fgt0 (row_sum path3 ''C'')"
    by (simp_all add: row_sum_def sum_skipna_def path3_def)
  have pr: "predictors path3 ''B'' = [''A'']" by (simp add: predictors_def path3_def)
  have fit: "ols_fit stub_sm (tcolumn scores3 ''B'')
       (add_constant stub_sm (scores3\<lparr>tcolumns := [''A'']\<rparr>)) = Inr (stub_regression [''const'', ''A''])"
    by (simp add: scores3_def stub_sm_def)
  note t = endogenous_regressed [OF ok nonneg]
  have idx: "''A'' \<in> set (index path3)" "''B'' \<in> set (index path3)"
    "''A'' \<in> set (columns path3)" "''B'' \<in> set (columns path3)" "''C'' \<in> set (columns path3)"
    by (simp_all add: path3_def)
  from t idx(2) rs(2) obtain reg where
    r: "ols_fit stub_sm (tcolumn scores3 ''B'')
          (add_constant stub_sm (scores3\<lparr>tcolumns := predictors path3 ''B''\<rparr>)) = Inr reg"
       "s_val (im_r_squared self) ''B'' = rsquared reg"
       "\<forall>c \<in> set (columns path3).
          cell (im_path_coefficients self) ''B'' c =
            (if cell path3 ''B'' c = Num 1 then series_at (params reg) c else Num 0)"
    by blast
  from r(1) fit have reg: "reg = stub_regression [''const'', ''A'']" by (simp add: pr)
  have b: "s_val (im_r_squared self) ''B'' = Num (2/3)"
    using r(2) by (simp add: reg stub_regression_def)
  have c1: "cell (im_path_coefficients self) ''B'' ''A'' = Num (1/2)"
    using r(3) idx(3)
    by (simp add: reg stub_regression_def series_at_def const_series_def path3_def)
  have c2: "cell (im_path_coefficients self) ''B'' ''C'' = Num 0"
    using r(3) idx(5) by (simp add: path3_def)
  from t have e: "im_endogenous self = filter (\<lambda>dv. fgt0 (row_sum path3 dv)) (index path3)"
    by simp
  have e': "im_endogenous self = [''B'', ''C'']"
    using rs by (simp add: e path3_def)
  from t idx(1) rs(1) have a: "s_val (im_r_squared self) ''A'' = Num 0 \<and>
     s_val (im_r_squared_adj self) ''A'' = Num 0 \<and>
     (\<forall>c \<in> set (columns path3). cell (im_path_coefficients self) ''A'' c = Num 0)"
    by blast
  with idx(4) have a3: "cell (im_path_coefficients self) ''A'' ''B'' = Num 0" by blast
  from ok e' rs(1) fit b c1 c2 a a3 show ?thesis by blast
qed

section \<open>A model without endogenous variables\<close>

lemma effects_matrices_cases:
  assumes sq: "set (index path) = set (columns path)"
  shows "\<exists>pe. effects_matrices path =
     Inr (pe, if length (columns path) = 2
              then (const_frame (Num 0) (index path) (columns path), path)
              else (power_series path, frame_add path (power_series path)))"
proof -
  consider (two) "length (columns path) = 2" | (none) "columns path = []"
    | (gen) "length (columns path) \<noteq> 2" "0 < length (columns path)"
    by (cases "columns path") auto
  then show ?thesis
  proof cases
    case two
    then show ?thesis by (simp add: effects_matrices_def)
  next
    case none
    then show ?thesis
      by (simp add: effects_matrices_def effects_general_def power_series_def)
  next
    case gen
    have "effects_matrices path = effects_general path"
      using gen(1) by (simp add: effects_matrices_def)
    with effects_general_power_series [OF gen(2) sq] gen(1) show ?thesis by simp
  qed
qed

lemma p_effects_spec:
  assumes sq: "set (index path) = set (columns path)"
    and m: "effects_matrices path = Inr (pe, ind, tot)"
  shows "p_effects path = Inr (effects_spec path ind tot)"
proof -
  from effects_matrices_axes [OF sq] m have
    ax: "index ind = index path" "columns ind = columns path"
        "index tot = index path" "columns tot = columns path"
    by auto
  have sub: "set (columns path) \<subseteq> set (index path)" using sq by simp
  show ?thesis
    using effects_outer_concat [OF ax sub, of "columns path" "[]"]
    by (simp add: p_effects_def m effects_spec_def)
qed

lemma fsum_zeros: "fsum (map (\<lambda>k. Num 0) ks) = Num 0"
  by (induction ks) simp_all

lemma mpower_zero: "cell (mpower (const_frame (Num 0) idx cols) k) r c = Num 0"
proof (induction k arbitrary: r c)
  case 0
  then show ?case by (simp add: const_frame_def)
next
  case (Suc k)
  have "cell (const_frame (Num 0) idx cols) = (\<lambda>r c. Num 0)" by (simp add: const_frame_def)
  then show ?case by (simp add: dot_cells_def Suc fsum_zeros)
qed

lemma foldl_frame_add_zero:
  "r \<in> set (index z) \<Longrightarrow> c \<in> set (columns z) \<Longrightarrow> cell z r c = Num 0 \<Longrightarrow>
    (\<forall>f \<in> set fs. index f = index z \<and> columns f = columns z \<and> cell f r c = Num 0) \<Longrightarrow>
    cell (foldl frame_add z fs) r c = Num 0"
proof (induction fs arbitrary: z)
  case Nil
  then show ?case by simp
next
  case (Cons f fs)
  have f: "index f = index z" "columns f = columns z" "cell f r c = Num 0"
    using Cons.prems(4) by simp_all
  have ax: "index (frame_add z f) = index z" "columns (frame_add z f) = columns z"
    using frame_add_same_axes [OF f(1,2)] by simp_all
  have "cell (frame_add z f) r c = fadd (cell z r c) (cell f r c)"
    using Cons.prems(1,2) by (simp add: frame_add_def frame_op_def f(1,2))
  then have z: "cell (frame_add z f) r c = Num 0"
    by (simp add: f(3) Cons.prems(3))
  have rest: "\<forall>g \<in> set fs. index g = index (frame_add z f) \<and>
      columns g = columns (frame_add z f) \<and> cell g r c = Num 0"
    using Cons.prems(4) by (simp add: ax)
  have "cell (foldl frame_add (frame_add z f) fs) r c = Num 0"
    using Cons.prems(1,2) by (intro Cons.IH z rest) (simp_all add: ax)
  then show ?case by simp
qed

lemma power_series_zero:
  assumes "r \<in> set idx" and "c \<in> set cols"
  shows "cell (power_series (const_frame (Num 0) idx cols)) r c = Num 0"
proof -
  let ?z = "const_frame (Num 0) idx cols"
  have ax: "index ?z = idx" "columns ?z = cols" "cell ?z r c = Num 0"
    by (simp_all add: const_frame_def)
  have "cell (foldl frame_add (const_frame (Num 0) (index ?z) (columns ?z))
          (map (mpower ?z) [1 ..< length (columns ?z)])) r c = Num 0"
  proof (rule foldl_frame_add_zero)
    show "r \<in> set (index (const_frame (Num 0) (index ?z) (columns ?z)))"
      using assms by (simp add: const_frame_def)
    show "c \<in> set (columns (const_frame (Num 0) (index ?z) (columns ?z)))"
      using assms by (simp add: const_frame_def)
    show "cell (const_frame (Num 0) (index ?z) (columns ?z)) r c = Num 0"
      by (simp add: const_frame_def)
    show "\<forall>f \<in> set (map (mpower ?z) [1 ..< length (columns ?z)]).
            index f = index (const_frame (Num 0) (index ?z) (columns ?z)) \<and>
            columns f = columns (const_frame (Num 0) (index ?z) (columns ?z)) \<and>
            cell f r c = Num 0"
      using index_mpower [of ?z] columns_mpower [of ?z] mpower_zero [of idx cols]
      by (auto simp: const_frame_def simp del: mpower.simps)
  qed
  then show ?thesis by (simp add: power_series_def)
qed

lemma p_effects_zero:
  assumes sq: "set idx = set cols"
  shows "p_effects (const_frame (Num 0) idx cols) = Inr []"
proof -
  let ?z = "const_frame (Num 0) idx cols"
  have ax: "index ?z = idx" "columns ?z = cols" by (simp_all add: const_frame_def)
  have sq': "set (index ?z) = set (columns ?z)" using sq by (simp add: ax)
  from effects_matrices_cases [OF sq'] obtain pe where
    m: "effects_matrices ?z =
      Inr (pe, if length cols = 2 then (const_frame (Num 0) idx cols, ?z)
               else (power_series ?z, frame_add ?z (power_series ?z)))"
    by (auto simp: ax)
  define tot where "tot = (if length cols = 2 then ?z else frame_add ?z (power_series ?z))"
  define ind where "ind = (if length cols = 2 then ?z else power_series ?z)"
  have m': "effects_matrices ?z = Inr (pe, ind, tot)"
    using m by (simp add: tot_def ind_def)
  have zero: "\<And>f t. f \<in> set cols \<Longrightarrow> t \<in> set cols \<Longrightarrow> cell tot t f = Num 0"
  proof -
    fix f t assume f: "f \<in> set cols" and t: "t \<in> set cols"
    then have t': "t \<in> set idx" using sq by simp
    have ps: "index (power_series ?z) = idx" "columns (power_series ?z) = cols"
      using power_series_axes [of ?z] by (simp_all add: ax)
    show "cell tot t f = Num 0"
      using f t' power_series_zero [OF t' f]
      by (simp add: tot_def frame_add_def frame_op_def ps ax) (simp add: const_frame_def)
  qed
  have "effects_spec ?z ind tot = []"
    by (auto simp: effects_spec_def ax filter_empty_conv zero)
  with p_effects_spec [OF sq' m'] show ?thesis by simp
qed

text \<open>The effects table of a constructed inner model with more than two latent
  variables: the rows of the power series of its path coefficients.\<close>

lemma InnerModel_effects:
  assumes ok: "InnerModel sm path scores = Inr self"
    and sq: "set (index path) = set (columns path)" and n: "2 < length (columns path)"
  shows "im_effects self =
           effects_spec (im_path_coefficients self) (power_series (im_path_coefficients self))
             (frame_add (im_path_coefficients self) (power_series (im_path_coefficients self)))"
proof -
  let ?pc = "im_path_coefficients self"
  from InnerModel_Inr [OF ok] obtain s0 effs where
    e: "p_effects (im_path_coefficients s0) = Inr effs" and self: "self = s0\<lparr>im_effects := effs\<rparr>"
    by blast
  have ax: "index ?pc = index path" "columns ?pc = columns path"
    using InnerModel_fixed [OF ok] by simp_all
  have sq': "set (index ?pc) = set (columns ?pc)" using sq ax by simp
  from effects_matrices_cases [OF sq'] n obtain pe where
    "effects_matrices ?pc = Inr (pe, power_series ?pc, frame_add ?pc (power_series ?pc))"
    by (auto simp: ax)
  from p_effects_spec [OF sq' this] e self show ?thesis by simp
qed

text \<open>
  Claim C10. For a path matrix whose row sums are all zero (with the same labels on
  both axes), the construction succeeds; \<open>inner_model()\<close> then fails, since the summary
  table is still \<open>None\<close>, while the other accessors return the tables of zeros, the
  empty effects table and the empty list of endogenous variables.
\<close>

theorem no_endogenous:
  assumes zero: "\<forall>dv \<in> set (index path). row_sum path dv = Num 0"
    and sq: "set (index path) = set (columns path)"
  shows "\<exists>self. InnerModel sm path scores = Inr self \<and>
           inner_model self = Inl AttributeError \<and>
           path_coefficients self = Inr (const_frame (Num 0) (index path) (columns path)) \<and>
           r_squared self = Inr (const_series (Num 0) (index path)) \<and>
           r_squared_adj self = Inr (const_series (Num 0) (index path)) \<and>
           effects self = Inr [] \<and>
           endogenous self = Inr []"
proof -
  have e: "endogenous_of path = []"
    using zero by (simp add: endogenous_of_def filter_empty_conv)
  have "InnerModel sm path scores = Inr (init_obj path)"
    using p_effects_zero [OF sq]
    by (simp add: InnerModel_def e init_obj_def)
  then show ?thesis
    by (simp add: init_obj_def e inner_model_def path_coefficients_def r_squared_def
          r_squared_adj_def effects_def endogenous_def)
qed

theorem no_endogenous_witness:
  "\<exists>self. InnerModel stub_sm empty3 scores3 = Inr self \<and>
     inner_model self = Inl AttributeError \<and> effects self = Inr [] \<and> endogenous self = Inr [] \<and>
     r_squared self = Inr (const_series (Num 0) [''A'', ''B'', ''C''])"
proof -
  have z: "\<forall>dv \<in> set (index empty3). row_sum empty3 dv = Num 0"
    by (simp add: empty3_def const_frame_def row_sum_def sum_skipna_def)
  have sq: "set (index empty3) = set (columns empty3)"
    by (simp add: empty3_def const_frame_def)
  from no_endogenous [OF z sq, of stub_sm scores3] show ?thesis
    by (auto simp: empty3_def const_frame_def)
qed

section \<open>The branch for two latent variables\<close>

lemma fsum_Num: "fsum (map (\<lambda>k. Num (h k)) ks) = Num (sum_list (map h ks))"
  by (induction ks) simp_all

lemma union_labels_set: "set (union_labels xs ys) = set xs \<union> set ys"
  by (auto simp: union_labels_def)

lemma union_labels_distinct: "distinct xs \<Longrightarrow> distinct (union_labels xs ys)"
  by (auto simp: union_labels_def)

lemma fsum_two:
  assumes d: "distinct ks" and s: "set ks = {a, b}" and ab: "a \<noteq> b"
  shows "fsum (map (\<lambda>k. Num (h k)) ks) = Num (h a + h b)"
proof -
  have "sum_list (map h ks) = sum h (set ks)"
    using d by (rule sum_list_distinct_conv_sum_set)
  also have "\<dots> = h a + h b" using s ab by simp
  finally show ?thesis by (simp add: fsum_Num)
qed

text \<open>The square of an acyclic \<open>2 \<times> 2\<close> matrix of numbers with a zero diagonal is zero.\<close>

lemma square2_zero:
  assumes cols: "columns path = [a, b]" and ab: "a \<noteq> b"
    and idx: "set (index path) = {a, b}"
    and num: "\<And>r c. r \<in> {a, b} \<Longrightarrow> c \<in> {a, b} \<Longrightarrow> cell path r c = Num (m r c)"
    and diag: "m a a = 0" "m b b = 0"
    and acyclic: "m a b = 0 \<or> m b a = 0"
    and r: "r \<in> {a, b}" and c: "c \<in> {a, b}"
  shows "cell (dot_cells path path) r c = Num 0"
proof -
  let ?ks = "union_labels (columns path) (index path)"
  have d: "distinct ?ks" using cols ab by (intro union_labels_distinct) simp
  have s: "set ?ks = {a, b}" using cols idx by (auto simp: union_labels_set)
  have eq: "map (\<lambda>k. fmul (cell path r k) (cell path k c)) ?ks =
        map (\<lambda>k. Num (m r k * m k c)) ?ks"
    using s r c by (intro map_cong) (auto simp: num)
  have "cell (dot_cells path path) r c = fsum (map (\<lambda>k. fmul (cell path r k) (cell path k c)) ?ks)"
    by (simp add: dot_cells_def)
  also have "\<dots> = Num (m r a * m a c + m r b * m b c)"
    unfolding eq by (rule fsum_two [OF d s ab])
  finally have "cell (dot_cells path path) r c = Num (m r a * m a c + m r b * m b c)" .
  moreover have "m r a * m a c + m r b * m b c = 0"
    using r c diag acyclic by auto
  ultimately show ?thesis by simp
qed

text \<open>
  Claim C8. For a \<open>2 \<times> 2\<close> path-coefficients matrix of numbers with a zero diagonal and
  no cycle (one of the two off-diagonal entries is 0), the branch \<open>num_lvs == 2\<close> and
  the general loop run on the same matrix give tables with the same labels and the same
  entries: the indirect effects are 0 and the total effects are the path coefficients.
\<close>

theorem two_lvs_branch:
  assumes cols: "columns path = [a, b]" and ab: "a \<noteq> b"
    and idx: "set (index path) = {a, b}"
    and num: "\<And>r c. r \<in> {a, b} \<Longrightarrow> c \<in> {a, b} \<Longrightarrow> cell path r c = Num (m r c)"
    and diag: "m a a = 0" "m b b = 0"
    and acyclic: "m a b = 0 \<or> m b a = 0"
  shows "\<exists>pe ind tot pe' ind' tot'.
     effects_matrices path = Inr (pe, ind, tot) \<and>
     effects_general path = Inr (pe', ind', tot') \<and>
     index ind' = index ind \<and> columns ind' = columns ind \<and>
     index tot' = index tot \<and> columns tot' = columns tot \<and>
     (\<forall>r \<in> set (index path). \<forall>c \<in> set (columns path).
        cell ind' r c = cell ind r c \<and> cell tot' r c = cell tot r c \<and>
        cell ind r c = Num 0 \<and> cell tot r c = cell path r c)"
proof -
  let ?z = "const_frame (Num 0) (index path) (columns path)"
  let ?ps = "power_series path"
  have sq: "set (index path) = set (columns path)" using cols idx by auto
  have special: "effects_matrices path = Inr (Map.empty, ?z, path)"
    using cols by (simp add: effects_matrices_def)
  have general: "effects_general path =
      Inr ((\<lambda>k. if k < length (columns path) then Some (mpower path k) else None),
           ?ps, frame_add path ?ps)"
    using cols by (intro effects_general_power_series sq) simp
  have ax: "index ?ps = index path" "columns ?ps = columns path"
    using power_series_axes [of path] by simp_all
  have ps: "?ps = frame_add ?z (dot_cells path path)"
    using cols by (simp add: power_series_def)
  have cells: "\<forall>r \<in> set (index path). \<forall>c \<in> set (columns path).
        cell ?ps r c = Num 0 \<and> cell (frame_add path ?ps) r c = cell path r c"
  proof (intro ballI)
    fix r c assume "r \<in> set (index path)" "c \<in> set (columns path)"
    then have r: "r \<in> {a, b}" and c: "c \<in> {a, b}" using idx cols by auto
    have sqz: "cell (dot_cells path path) r c = Num 0"
      by (rule square2_zero [OF cols ab idx num diag acyclic r c])
    have i: "cell ?ps r c = Num 0"
      using r c idx cols sqz
      by (simp add: ps frame_add_def frame_op_def const_frame_def dot_cells_def)
    have "cell (frame_add path ?ps) r c = fadd (cell path r c) (cell ?ps r c)"
      using r c idx cols by (simp add: frame_add_def frame_op_def ax)
    with i num [OF r c] show "cell ?ps r c = Num 0 \<and> cell (frame_add path ?ps) r c = cell path r c"
      by simp
  qed
  have axes: "index ?ps = index ?z" "columns ?ps = columns ?z"
       "index (frame_add path ?ps) = index path" "columns (frame_add path ?ps) = columns path"
    using ax frame_add_same_axes [OF ax] by (simp_all add: const_frame_def)
  have zc: "\<And>r c. cell ?z r c = Num 0" by (simp add: const_frame_def)
  show ?thesis
    unfolding special general using cells axes zc by auto
qed

theorem two_lvs_branch_witness:
  "\<exists>pe ind tot pe' ind' tot'.
     effects_matrices arrow2 = Inr (pe, ind, tot) \<and>
     effects_general arrow2 = Inr (pe', ind', tot') \<and>
     cell ind' ''Y'' ''X'' = cell ind ''Y'' ''X'' \<and> cell tot' ''Y'' ''X'' = cell tot ''Y'' ''X'' \<and>
     cell ind ''Y'' ''X'' = Num 0 \<and> cell tot ''Y'' ''X'' = Num 2"
proof -
  have cols: "columns arrow2 = [''X'', ''Y'']" and ab: "''X'' \<noteq> ''Y''"
    and idx: "set (index arrow2) = {''X'', ''Y''}"
    by (simp_all add: arrow2_def)
  have num: "\<And>r c. r \<in> {''X'', ''Y''} \<Longrightarrow> c \<in> {''X'', ''Y''} \<Longrightarrow>
      cell arrow2 r c = Num (if r = ''Y'' \<and> c = ''X'' then 2 else 0)"
    by (simp add: arrow2_def)
  from two_lvs_branch [OF cols ab idx num]
  obtain pe ind tot pe' ind' tot' where
    "effects_matrices arrow2 = Inr (pe, ind, tot)"
    "effects_general arrow2 = Inr (pe', ind', tot')"
    "\<forall>r \<in> set (index arrow2). \<forall>c \<in> set (columns arrow2).
        cell ind' r c = cell ind r c \<and> cell tot' r c = cell tot r c \<and>
        cell ind r c = Num 0 \<and> cell tot r c = cell arrow2 r c"
    by auto
  moreover have "cell arrow2 ''Y'' ''X'' = Num 2" by (simp add: arrow2_def)
  ultimately show ?thesis
    by (intro exI [of _ pe] exI [of _ ind] exI [of _ tot] exI [of _ pe'] exI [of _ ind'] exI [of _ tot'])
       (simp add: arrow2_def)
qed

section \<open>The outer model\<close>

lemma union_labels_distinct2: "distinct ys \<Longrightarrow> distinct (union_labels xs ys)"
  by (auto simp: union_labels_def)

lemma sum_skipna_zero:
  "(\<forall>c \<in> set cs. g c = NaN \<or> g c = Num 0) \<Longrightarrow> sum_skipna (map g cs) = Num 0"
proof (induction cs)
  case Nil
  then show ?case by (simp add: sum_skipna_def)
next
  case (Cons c cs)
  then have ih: "sum_skipna (map g cs) = Num 0" by simp
  from Cons.prems have "g c = NaN \<or> g c = Num 0" by simp
  then show ?case using ih by (auto simp: sum_skipna_def)
qed

lemma sum_skipna_Cons:
  "sum_skipna (x # xs) = (if x = NaN then sum_skipna xs else fadd x (sum_skipna xs))"
  by (simp add: sum_skipna_def)

lemma sum_skipna_bounded:
  "(\<forall>c \<in> set cs. g c = NaN \<or> (\<exists>v. g c = Num v \<and> \<bar>v\<bar> \<le> 1)) \<Longrightarrow>
   length (filter (\<lambda>c. g c \<noteq> NaN \<and> g c \<noteq> Num 0) cs) \<le> 1 \<Longrightarrow>
   \<exists>v. sum_skipna (map g cs) = Num v \<and> \<bar>v\<bar> \<le> 1"
proof (induction cs)
  case Nil
  then show ?case by (simp add: sum_skipna_def)
next
  case (Cons c cs)
  show ?case
  proof (cases "g c \<noteq> NaN \<and> g c \<noteq> Num 0")
    case True
    with Cons.prems(2) have "filter (\<lambda>c. g c \<noteq> NaN \<and> g c \<noteq> Num 0) cs = []" by simp
    then have "\<forall>c \<in> set cs. g c = NaN \<or> g c = Num 0"
      by (auto simp: filter_empty_conv)
    then have rest: "sum_skipna (map g cs) = Num 0" by (rule sum_skipna_zero)
    from Cons.prems(1) True obtain v where "g c = Num v" "\<bar>v\<bar> \<le> 1" by auto
    with rest show ?thesis by (simp add: sum_skipna_Cons)
  next
    case False
    with Cons.prems(2) have "length (filter (\<lambda>c. g c \<noteq> NaN \<and> g c \<noteq> Num 0) cs) \<le> 1"
      by simp
    with Cons.IH Cons.prems(1) obtain v where v: "sum_skipna (map g cs) = Num v" "\<bar>v\<bar> \<le> 1"
      by auto
    from False have "g c = NaN \<or> g c = Num 0" by blast
    with v show ?thesis by (auto simp: sum_skipna_Cons)
  qed
qed

lemma sum_skipna_finite:
  "(\<forall>c \<in> set cs. g c = NaN \<or> (\<exists>v. g c = Num v)) \<Longrightarrow> \<exists>v. sum_skipna (map g cs) = Num v"
proof (induction cs)
  case Nil
  then show ?case by (simp add: sum_skipna_def)
next
  case (Cons c cs)
  then obtain v where v: "sum_skipna (map g cs) = Num v" by auto
  from Cons.prems have "g c = NaN \<or> (\<exists>w. g c = Num w)" by simp
  with v show ?case by (auto simp: sum_skipna_Cons)
qed

lemma filter_at_most_one:
  "distinct cs \<Longrightarrow> (\<forall>c \<in> set cs. \<forall>c' \<in> set cs. Q c \<and> Q c' \<longrightarrow> c = c') \<Longrightarrow>
   length (filter Q cs) \<le> 1"
proof (induction cs)
  case Nil
  then show ?case by simp
next
  case (Cons c cs)
  show ?case
  proof (cases "Q c")
    case True
    have "filter Q cs = []"
    proof (rule ccontr)
      assume "filter Q cs \<noteq> []"
      then obtain c' where c': "c' \<in> set cs" "Q c'"
        by (auto simp: filter_empty_conv)
      with Cons.prems(2) True have "c = c'" by auto
      with c'(1) Cons.prems(1) show False by simp
    qed
    with True show ?thesis by simp
  next
    case False
    with Cons show ?thesis by simp
  qed
qed

lemma index_diag_frame: "index (diag_frame s) = s_index s"
  by (simp add: diag_frame_def)

lemma OuterModel_Inr:
  assumes "OuterModel corr data y weights odm r_sq = Inr self"
  shows "set (columns odm) = set (s_index r_sq) \<and>
     crossloadings self = crossloadings_of corr data y \<and>
     model self = concat_axis1 weights
        (sum_axis1 (frame_mul (crossloadings_of corr data y) odm))
        (pow2 (sum_axis1 (frame_mul (crossloadings_of corr data y) odm)))
        (series_mul (pow2 (sum_axis1 (frame_mul (crossloadings_of corr data y) odm)))
                    (sum_axis1 (dot_cells odm (diag_frame r_sq))))"
proof (cases "set (columns odm) = set (s_index r_sq)")
  case True
  then have "dot odm (diag_frame r_sq) = Inr (dot_cells odm (diag_frame r_sq))"
    by (simp add: dot_def index_diag_frame)
  with assms have "self = \<lparr>om_crossloadings = crossloadings_of corr data y,
      om_outer_model = concat_axis1 weights
        (sum_axis1 (frame_mul (crossloadings_of corr data y) odm))
        (pow2 (sum_axis1 (frame_mul (crossloadings_of corr data y) odm)))
        (series_mul (pow2 (sum_axis1 (frame_mul (crossloadings_of corr data y) odm)))
                    (sum_axis1 (dot_cells odm (diag_frame r_sq))))\<rparr>"
    by (simp add: OuterModel_def Let_def)
  with True show ?thesis by (simp add: model_def crossloadings_def)
next
  case False
  then have "dot odm (diag_frame r_sq) = Inl ValueError"
    by (simp add: dot_def index_diag_frame)
  with assms show ?thesis by (simp add: OuterModel_def Let_def)
qed

lemma loading_index:
  "set (s_index (sum_axis1 (frame_mul cl odm))) = set (index cl) \<union> set (index odm)"
  by (simp add: sum_axis1_def frame_mul_def frame_op_def union_labels_set)

lemma loading_val:
  "s_val (sum_axis1 (frame_mul cl odm)) i =
     sum_skipna (map (\<lambda>c. if i \<in> set (index cl) \<and> i \<in> set (index odm)
                              \<and> c \<in> set (columns cl) \<and> c \<in> set (columns odm)
                            then fmul (cell cl i c) (cell odm i c) else NaN)
                     (union_labels (columns cl) (columns odm)))"
  by (simp add: sum_axis1_def frame_mul_def frame_op_def row_sum_def)

text \<open>The loading of an indicator whose row of the design matrix is 0/1 with at most
  one 1, when its cross-loadings are correlations: a number in \<open>[-1, 1]\<close>.\<close>

lemma loading_bounded:
  assumes d: "distinct (columns odm)"
    and cl: "\<forall>l \<in> set (columns cl). i \<in> set (index cl) \<longrightarrow>
               (\<exists>x. cell cl i l = Num x \<and> - 1 \<le> x \<and> x \<le> 1)"
    and bin: "\<forall>c \<in> set (columns odm). i \<in> set (index odm) \<longrightarrow>
               (cell odm i c = Num 0 \<or> cell odm i c = Num 1)"
    and one: "\<forall>c \<in> set (columns odm). \<forall>c' \<in> set (columns odm). i \<in> set (index odm) \<longrightarrow>
               cell odm i c = Num 1 \<and> cell odm i c' = Num 1 \<longrightarrow> c = c'"
  shows "\<exists>v. s_val (sum_axis1 (frame_mul cl odm)) i = Num v \<and> \<bar>v\<bar> \<le> 1"
proof -
  let ?g = "\<lambda>c. if i \<in> set (index cl) \<and> i \<in> set (index odm)
                     \<and> c \<in> set (columns cl) \<and> c \<in> set (columns odm)
                  then fmul (cell cl i c) (cell odm i c) else NaN"
  let ?cs = "union_labels (columns cl) (columns odm)"
  have g: "\<And>c. ?g c = NaN \<or> (\<exists>v. ?g c = Num v \<and> \<bar>v\<bar> \<le> 1)"
  proof -
    fix c
    show "?g c = NaN \<or> (\<exists>v. ?g c = Num v \<and> \<bar>v\<bar> \<le> 1)"
    proof (cases "i \<in> set (index cl) \<and> i \<in> set (index odm)
                     \<and> c \<in> set (columns cl) \<and> c \<in> set (columns odm)")
      case True
      with cl obtain x where x: "cell cl i c = Num x" "- 1 \<le> x" "x \<le> 1" by blast
      from True bin have "cell odm i c = Num 0 \<or> cell odm i c = Num 1" by blast
      with True x show ?thesis by auto
    next
      case False
      then have "?g c = NaN" by (simp only: if_False)
      then show ?thesis by (rule disjI1)
    qed
  qed
  have q: "\<And>c. ?g c \<noteq> NaN \<and> ?g c \<noteq> Num 0 \<Longrightarrow>
      i \<in> set (index odm) \<and> c \<in> set (columns odm) \<and> cell odm i c = Num 1"
  proof -
    fix c assume nz: "?g c \<noteq> NaN \<and> ?g c \<noteq> Num 0"
    then have t: "i \<in> set (index cl) \<and> i \<in> set (index odm)
                     \<and> c \<in> set (columns cl) \<and> c \<in> set (columns odm)"
      by (auto split: if_splits)
    with cl obtain x where x: "cell cl i c = Num x" by blast
    from t bin have "cell odm i c = Num 0 \<or> cell odm i c = Num 1" by blast
    with nz t x show "i \<in> set (index odm) \<and> c \<in> set (columns odm) \<and> cell odm i c = Num 1"
      by auto
  qed
  have "distinct ?cs" using d by (rule union_labels_distinct2)
  moreover have "\<forall>c \<in> set ?cs. \<forall>c' \<in> set ?cs.
      (?g c \<noteq> NaN \<and> ?g c \<noteq> Num 0) \<and> (?g c' \<noteq> NaN \<and> ?g c' \<noteq> Num 0) \<longrightarrow> c = c'"
    using q one by blast
  ultimately have "length (filter (\<lambda>c. ?g c \<noteq> NaN \<and> ?g c \<noteq> Num 0) ?cs) \<le> 1"
    by (rule filter_at_most_one)
  with g have "\<exists>v. sum_skipna (map ?g ?cs) = Num v \<and> \<bar>v\<bar> \<le> 1"
    by (intro sum_skipna_bounded) blast
  then show ?thesis by (simp only: loading_val)
qed

text \<open>
  Claim C7. In the outer-model table the communality of every indicator is the square
  of its loading. When every cross-loading is a number in \<open>[-1, 1]\<close> and every row of
  the outer design matrix (its column labels distinct) holds 0 and 1 only, with at most
  one 1, the communality of every indicator of the data or of the design matrix is a
  number in \<open>[0, 1]\<close>.
\<close>

theorem communality_square:
  assumes ok: "OuterModel corr data y weights odm r_sq = Inr self"
  shows "(\<forall>i. ot_communality (model self) i =
               fmul (ot_loading (model self) i) (ot_loading (model self) i)) \<and>
         ((\<forall>i \<in> set (tcolumns data). \<forall>l \<in> set (tcolumns y).
              \<exists>x. cell (crossloadings self) i l = Num x \<and> - 1 \<le> x \<and> x \<le> 1) \<and>
          distinct (columns odm) \<and>
          (\<forall>i \<in> set (index odm). \<forall>c \<in> set (columns odm).
              (cell odm i c = Num 0 \<or> cell odm i c = Num 1) \<and>
              (\<forall>c' \<in> set (columns odm).
                 cell odm i c = Num 1 \<and> cell odm i c' = Num 1 \<longrightarrow> c = c'))
          \<longrightarrow> (\<forall>i \<in> set (tcolumns data) \<union> set (index odm).
                 \<exists>v. ot_communality (model self) i = Num v \<and> 0 \<le> v \<and> v \<le> 1))"
proof -
  let ?cl = "crossloadings_of corr data y"
  let ?L = "sum_axis1 (frame_mul ?cl odm)"
  from OuterModel_Inr [OF ok] have
    cl: "crossloadings self = ?cl" and
    m: "ot_communality (model self) = series_at (pow2 ?L)"
       "ot_loading (model self) = series_at ?L"
    by (simp_all add: concat_axis1_def)
  have sq: "\<forall>i. ot_communality (model self) i =
               fmul (ot_loading (model self) i) (ot_loading (model self) i)"
    by (simp add: m series_at_def pow2_def)
  have bounded: "\<forall>i \<in> set (tcolumns data) \<union> set (index odm).
                 \<exists>v. ot_communality (model self) i = Num v \<and> 0 \<le> v \<and> v \<le> 1"
    if h: "\<forall>i \<in> set (tcolumns data). \<forall>l \<in> set (tcolumns y).
              \<exists>x. cell (crossloadings self) i l = Num x \<and> - 1 \<le> x \<and> x \<le> 1"
       "distinct (columns odm)"
       "\<forall>i \<in> set (index odm). \<forall>c \<in> set (columns odm).
              (cell odm i c = Num 0 \<or> cell odm i c = Num 1) \<and>
              (\<forall>c' \<in> set (columns odm).
                 cell odm i c = Num 1 \<and> cell odm i c' = Num 1 \<longrightarrow> c = c')"
  proof
    fix i assume i: "i \<in> set (tcolumns data) \<union> set (index odm)"
    have ax: "index ?cl = tcolumns data" "columns ?cl = tcolumns y"
      by (simp_all add: crossloadings_of_def)
    have "\<exists>v. s_val ?L i = Num v \<and> \<bar>v\<bar> \<le> 1"
    proof (rule loading_bounded [OF h(2)])
      show "\<forall>l \<in> set (columns ?cl). i \<in> set (index ?cl) \<longrightarrow>
               (\<exists>x. cell ?cl i l = Num x \<and> - 1 \<le> x \<and> x \<le> 1)"
        using h(1) by (simp add: ax cl)
      show "\<forall>c \<in> set (columns odm). i \<in> set (index odm) \<longrightarrow>
               (cell odm i c = Num 0 \<or> cell odm i c = Num 1)"
        using h(3) by blast
      show "\<forall>c \<in> set (columns odm). \<forall>c' \<in> set (columns odm). i \<in> set (index odm) \<longrightarrow>
               cell odm i c = Num 1 \<and> cell odm i c' = Num 1 \<longrightarrow> c = c'"
        using h(3) by blast
    qed
    then obtain v where v: "s_val ?L i = Num v" "\<bar>v\<bar> \<le> 1" by blast
    have "i \<in> set (s_index ?L)" using i by (simp add: loading_index ax)
    then have "ot_communality (model self) i = Num (v * v)"
      by (simp add: m series_at_def pow2_def v)
    moreover have "0 \<le> v * v" by simp
    moreover have "v * v \<le> 1"
      using v(2) by (metis abs_mult_self_eq abs_le_square_iff abs_one mult_1 power2_eq_square)
    ultimately show "\<exists>v. ot_communality (model self) i = Num v \<and> 0 \<le> v \<and> v \<le> 1"
      by blast
  qed
  from sq bounded show ?thesis by blast
qed

theorem communality_square_witness:
  "\<exists>self. OuterModel stub_corr data3 y2 weights3 odm3 r_sq2 = Inr self \<and>
     ot_loading (model self) ''x1'' = Num (1/2) \<and>
     ot_communality (model self) ''x1'' = Num (1/4) \<and>
     (\<exists>v. ot_communality (model self) ''x3'' = Num v \<and> 0 \<le> v \<and> v \<le> 1)"
proof -
  have "\<exists>self. OuterModel stub_corr data3 y2 weights3 odm3 r_sq2 = Inr self"
    by (simp add: OuterModel_def dot_def diag_frame_def odm3_def r_sq2_def Let_def)
  then obtain self where ok: "OuterModel stub_corr data3 y2 weights3 odm3 r_sq2 = Inr self"
    by blast
  note t = communality_square [OF ok]
  have l: "ot_loading (model self) ''x1'' = Num (1/2)"
    using OuterModel_Inr [OF ok]
    by (simp add: concat_axis1_def series_at_def sum_axis1_def frame_mul_def frame_op_def
          union_labels_def row_sum_def sum_skipna_def crossloadings_of_def data3_def y2_def
          odm3_def stub_corr_def)
  from t have "ot_communality (model self) ''x1'' =
      fmul (ot_loading (model self) ''x1'') (ot_loading (model self) ''x1'')" by blast
  with l have c: "ot_communality (model self) ''x1'' = Num (1/4)" by simp
  have h1: "\<forall>i \<in> set (tcolumns data3). \<forall>l \<in> set (tcolumns y2).
              \<exists>x. cell (crossloadings self) i l = Num x \<and> - 1 \<le> x \<and> x \<le> 1"
  proof (intro ballI exI [of _ "1/2"])
    fix i l
    show "cell (crossloadings self) i l = Num (1/2) \<and> - 1 \<le> (1/2 :: real) \<and> (1/2 :: real) \<le> 1"
      using OuterModel_Inr [OF ok] by (simp add: crossloadings_of_def stub_corr_def)
  qed
  have h2: "distinct (columns odm3)" by (simp add: odm3_def)
  have h3: "\<forall>i \<in> set (index odm3). \<forall>c \<in> set (columns odm3).
              (cell odm3 i c = Num 0 \<or> cell odm3 i c = Num 1) \<and>
              (\<forall>c' \<in> set (columns odm3).
                 cell odm3 i c = Num 1 \<and> cell odm3 i c' = Num 1 \<longrightarrow> c = c')"
    by (simp add: odm3_def)
  have "''x3'' \<in> set (tcolumns data3) \<union> set (index odm3)" by (simp add: data3_def)
  with t h1 h2 h3 have "\<exists>v. ot_communality (model self) ''x3'' = Num v \<and> 0 \<le> v \<and> v \<le> 1"
    by blast
  with ok l c show ?thesis by blast
qed

section \<open>Redundancy\<close>

lemma fmul_zero_left: "fmul (Num 0) x = Num 0 \<or> fmul (Num 0) x = NaN"
  by (cases x) simp_all

lemma fsum_zero_nan:
  "(\<forall>x \<in> set xs. x = Num 0 \<or> x = NaN) \<Longrightarrow> fsum xs = Num 0 \<or> fsum xs = NaN"
  by (induction xs) auto

lemma fsum_all_zero: "(\<forall>k \<in> set ks. g k = Num 0) \<Longrightarrow> fsum (map g ks) = Num 0"
  by (induction ks) simp_all

lemma fsum_single:
  "distinct ks \<Longrightarrow> c \<in> set ks \<Longrightarrow> (\<forall>k \<in> set ks. k \<noteq> c \<longrightarrow> g k = Num 0) \<Longrightarrow>
   g c = Num v \<Longrightarrow> fsum (map g ks) = Num v"
proof (induction ks)
  case Nil
  then show ?case by simp
next
  case (Cons k ks)
  show ?case
  proof (cases "k = c")
    case True
    with Cons.prems(1,3) have "\<forall>k' \<in> set ks. g k' = Num 0" by auto
    then have "fsum (map g ks) = Num 0" by (rule fsum_all_zero)
    with True Cons.prems(4) show ?thesis by simp
  next
    case False
    with Cons.prems have "g k = Num 0" "c \<in> set ks" "distinct ks"
      "\<forall>k' \<in> set ks. k' \<noteq> c \<longrightarrow> g k' = Num 0" by auto
    with Cons.IH Cons.prems(4) show ?thesis by simp
  qed
qed

lemma sum_skipna_single:
  "distinct cs \<Longrightarrow> lv \<in> set cs \<Longrightarrow>
   (\<forall>c \<in> set cs. c \<noteq> lv \<longrightarrow> h c = Num 0 \<or> h c = NaN) \<Longrightarrow>
   h lv = Num v \<Longrightarrow> sum_skipna (map h cs) = Num v"
proof (induction cs)
  case Nil
  then show ?case by simp
next
  case (Cons c cs)
  show ?case
  proof (cases "c = lv")
    case True
    with Cons.prems(1,3) have "\<forall>c' \<in> set cs. h c' = NaN \<or> h c' = Num 0" by auto
    then have "sum_skipna (map h cs) = Num 0" by (rule sum_skipna_zero)
    with True Cons.prems(4) show ?thesis by (simp add: sum_skipna_Cons)
  next
    case False
    with Cons.prems have hc: "h c = Num 0 \<or> h c = NaN" and "lv \<in> set cs" "distinct cs"
      "\<forall>c' \<in> set cs. c' \<noteq> lv \<longrightarrow> h c' = Num 0 \<or> h c' = NaN" by auto
    with Cons.IH Cons.prems(4) have "sum_skipna (map h cs) = Num v" by simp
    with hc show ?thesis by (auto simp: sum_skipna_Cons)
  qed
qed

text \<open>The auxiliary value of an indicator: the \<open>R\<^sup>2\<close> of the one latent variable that
  owns it.\<close>

lemma r_squared_aux_owner:
  assumes d: "distinct (columns odm)" "distinct (s_index r_sq)"
    and al: "set (columns odm) = set (s_index r_sq)"
    and lv: "lv \<in> set (columns odm)" "cell odm i lv = Num 1"
    and other: "\<forall>k \<in> set (columns odm). k \<noteq> lv \<longrightarrow> cell odm i k = Num 0"
    and v: "s_val r_sq lv = Num v"
  shows "s_val (sum_axis1 (dot_cells odm (diag_frame r_sq))) i = Num v"
proof -
  let ?ks = "union_labels (columns odm) (s_index r_sq)"
  let ?t = "\<lambda>c k. fmul (cell odm i k) (if k = c then s_val r_sq k else Num 0)"
  let ?h = "\<lambda>c. fsum (map (?t c) ?ks)"
  have ks: "distinct ?ks" "set ?ks = set (columns odm)"
    using d(1) al by (simp_all add: union_labels_distinct union_labels_set)
  have own: "?h lv = Num v"
  proof (rule fsum_single [OF ks(1)])
    show "lv \<in> set ?ks" using lv(1) ks(2) by simp
    show "\<forall>k \<in> set ?ks. k \<noteq> lv \<longrightarrow> ?t lv k = Num 0"
      using other ks(2) by simp
    show "?t lv lv = Num v" using lv(2) v by simp
  qed
  have oth: "\<forall>c \<in> set (s_index r_sq). c \<noteq> lv \<longrightarrow> ?h c = Num 0 \<or> ?h c = NaN"
  proof (intro ballI impI)
    fix c assume c: "c \<in> set (s_index r_sq)" "c \<noteq> lv"
    then have c0: "cell odm i c = Num 0" using other al by simp
    have "\<forall>x \<in> set (map (?t c) ?ks). x = Num 0 \<or> x = NaN"
    proof
      fix x assume "x \<in> set (map (?t c) ?ks)"
      then obtain k where k: "k \<in> set (columns odm)" "x = ?t c k" using ks(2) by auto
      show "x = Num 0 \<or> x = NaN"
      proof (cases "k = c")
        case True
        with k c0 fmul_zero_left [of "s_val r_sq c"] show ?thesis by simp
      next
        case False
        have "cell odm i k = Num 0 \<or> cell odm i k = Num 1"
          using other lv(2) k(1) by (cases "k = lv") simp_all
        with False k show ?thesis by auto
      qed
    qed
    then show "?h c = Num 0 \<or> ?h c = NaN" by (rule fsum_zero_nan)
  qed
  have "sum_skipna (map ?h (s_index r_sq)) = Num v"
    using d(2) _ oth own by (rule sum_skipna_single) (use lv(1) al in simp)
  then show ?thesis
    by (simp add: sum_axis1_def row_sum_def dot_cells_def diag_frame_def)
qed

text \<open>
  Claim C6. For an indicator \<open>i\<close> of the outer design matrix that belongs to the latent
  variable \<open>lv\<close> alone (entry 1 there, 0 in the other columns), with \<open>R\<^sup>2\<close> of \<open>lv\<close> a
  number: the redundancy of \<open>i\<close> in the outer-model table is its communality times the
  \<open>R\<^sup>2\<close> of \<open>lv\<close>; and it is 0 when that \<open>R\<^sup>2\<close> is 0 (\<open>lv\<close> exogenous) and no cross-loading
  of \<open>i\<close> is infinite.
\<close>

theorem redundancy_owner:
  assumes ok: "OuterModel corr data y weights odm r_sq = Inr self"
    and d: "distinct (columns odm)" "distinct (s_index r_sq)"
    and i: "i \<in> set (index odm)"
    and lv: "lv \<in> set (columns odm)" "cell odm i lv = Num 1"
    and other: "\<forall>k \<in> set (columns odm). k \<noteq> lv \<longrightarrow> cell odm i k = Num 0"
    and v: "s_val r_sq lv = Num v"
  shows "ot_redundancy (model self) i = fmul (ot_communality (model self) i) (s_val r_sq lv) \<and>
         ((\<forall>l \<in> set (tcolumns y). cell (crossloadings self) i l \<noteq> PInf \<and>
                                   cell (crossloadings self) i l \<noteq> NInf) \<and> v = 0
            \<longrightarrow> ot_redundancy (model self) i = Num 0)"
proof -
  let ?cl = "crossloadings_of corr data y"
  let ?L = "sum_axis1 (frame_mul ?cl odm)"
  let ?aux = "sum_axis1 (dot_cells odm (diag_frame r_sq))"
  from OuterModel_Inr [OF ok] have
    al: "set (columns odm) = set (s_index r_sq)" and
    cl: "crossloadings self = ?cl" and
    m: "ot_communality (model self) = series_at (pow2 ?L)"
       "ot_redundancy (model self) = series_at (series_mul (pow2 ?L) ?aux)"
    by (simp_all add: concat_axis1_def)
  have ax: "index ?cl = tcolumns data" "columns ?cl = tcolumns y"
    by (simp_all add: crossloadings_of_def)
  have iL: "i \<in> set (s_index (pow2 ?L))"
    using i loading_index [of ?cl odm] by (simp add: pow2_def)
  have iA: "i \<in> set (s_index ?aux)"
    using i by (simp add: sum_axis1_def dot_cells_def)
  have aux: "s_val ?aux i = Num v"
    by (rule r_squared_aux_owner [OF d al lv other v])
  have red: "ot_redundancy (model self) i = fmul (ot_communality (model self) i) (Num v)"
    using iL iA by (simp add: m series_at_def series_mul_def union_labels_set aux)
  have zero: "ot_redundancy (model self) i = Num 0"
    if fin: "\<forall>l \<in> set (tcolumns y). cell (crossloadings self) i l \<noteq> PInf \<and>
                                   cell (crossloadings self) i l \<noteq> NInf" and v0: "v = 0"
  proof -
    let ?g = "\<lambda>c. if i \<in> set (index ?cl) \<and> i \<in> set (index odm)
                     \<and> c \<in> set (columns ?cl) \<and> c \<in> set (columns odm)
                  then fmul (cell ?cl i c) (cell odm i c) else NaN"
    have "\<forall>c \<in> set (union_labels (columns ?cl) (columns odm)).
            ?g c = NaN \<or> (\<exists>w. ?g c = Num w)"
    proof
      fix c
      show "?g c = NaN \<or> (\<exists>w. ?g c = Num w)"
      proof (cases "i \<in> set (index ?cl) \<and> i \<in> set (index odm)
                     \<and> c \<in> set (columns ?cl) \<and> c \<in> set (columns odm)")
        case True
        then have "cell ?cl i c \<noteq> PInf \<and> cell ?cl i c \<noteq> NInf"
          using fin by (simp add: ax cl)
        moreover have "cell odm i c = Num 0 \<or> cell odm i c = Num 1"
          using other lv(2) True by (cases "c = lv") simp_all
        ultimately have "fmul (cell ?cl i c) (cell odm i c) = NaN \<or>
            (\<exists>w. fmul (cell ?cl i c) (cell odm i c) = Num w)"
          by (cases "cell ?cl i c") auto
        moreover have "?g c = fmul (cell ?cl i c) (cell odm i c)"
          using True by simp
        ultimately show ?thesis by (simp only:)
      next
        case False
        then have "?g c = NaN" by (simp only: if_False)
        then show ?thesis by (rule disjI1)
      qed
    qed
    then have "\<exists>w. sum_skipna (map ?g (union_labels (columns ?cl) (columns odm))) = Num w"
      by (rule sum_skipna_finite)
    then obtain w where "s_val ?L i = Num w" by (auto simp only: loading_val)
    then have "ot_communality (model self) i = Num (w * w)"
      using iL by (simp add: m series_at_def pow2_def)
    with red v0 show ?thesis by simp
  qed
  from red zero v show ?thesis by simp
qed

theorem redundancy_owner_witness:
  "\<exists>self. OuterModel stub_corr data3 y2 weights3 odm3 r_sq2 = Inr self \<and>
     ot_communality (model self) ''x3'' = Num (1/4) \<and>
     ot_redundancy (model self) ''x3'' = Num (3/16) \<and>
     ot_redundancy (model self) ''x1'' = Num 0"
proof -
  have "\<exists>self. OuterModel stub_corr data3 y2 weights3 odm3 r_sq2 = Inr self"
    by (simp add: OuterModel_def dot_def diag_frame_def odm3_def r_sq2_def Let_def)
  then obtain self where ok: "OuterModel stub_corr data3 y2 weights3 odm3 r_sq2 = Inr self"
    by blast
  have d: "distinct (columns odm3)" "distinct (s_index r_sq2)"
    by (simp_all add: odm3_def r_sq2_def)
  have c: "ot_communality (model self) ''x3'' = Num (1/4)"
    using OuterModel_Inr [OF ok]
    by (simp add: concat_axis1_def series_at_def sum_axis1_def frame_mul_def frame_op_def
          union_labels_def row_sum_def sum_skipna_def crossloadings_of_def data3_def y2_def
          odm3_def stub_corr_def pow2_def)
  have fin: "\<forall>l \<in> set (tcolumns y2). cell (crossloadings self) ''x1'' l \<noteq> PInf \<and>
                                   cell (crossloadings self) ''x1'' l \<noteq> NInf"
    using OuterModel_Inr [OF ok] by (simp add: crossloadings_of_def stub_corr_def)
  have x3: "ot_redundancy (model self) ''x3'' = fmul (ot_communality (model self) ''x3'') (Num (3/4))"
    using redundancy_owner [OF ok d, of "''x3''" "''B''" "3/4"]
    by (simp add: odm3_def r_sq2_def)
  have x1: "ot_redundancy (model self) ''x1'' = Num 0"
  proof -
    have "ot_redundancy (model self) ''x1'' =
            fmul (ot_communality (model self) ''x1'') (s_val r_sq2 ''A'') \<and>
          ((\<forall>l \<in> set (tcolumns y2). cell (crossloadings self) ''x1'' l \<noteq> PInf \<and>
                                   cell (crossloadings self) ''x1'' l \<noteq> NInf) \<and> (0::real) = 0
            \<longrightarrow> ot_redundancy (model self) ''x1'' = Num 0)"
      by (rule redundancy_owner [OF ok d]) (simp_all add: odm3_def r_sq2_def)
    with fin show ?thesis by blast
  qed
  from ok c x3 x1 show ?thesis by auto
qed

section \<open>Failures of the constructors\<close>

lemma regression_of_KeyError:
  "dv \<notin> set (tcolumns scores) \<or> \<not> set (predictors path dv) \<subseteq> set (tcolumns scores) \<Longrightarrow>
   regression_of sm path scores dv = Inl KeyError"
  by (auto simp: regression_of_def loc_columns_def loc_column_def Let_def)

lemma regress_step_fails:
  "regression_of sm path scores dv = Inl e \<Longrightarrow> regress_step sm path scores dv self = Inl e"
  by (simp add: regress_step_def)

lemma regress_loop_fails:
  "\<exists>dv \<in> set dvs. isl (regression_of sm path scores dv) \<Longrightarrow>
   isl (regress_loop sm path scores dvs self)"
proof (induction dvs arbitrary: self)
  case Nil
  then show ?case by simp
next
  case (Cons d ds)
  show ?case
  proof (cases "regress_step sm path scores d self")
    case (Inl e)
    then show ?thesis by simp
  next
    case (Inr s1)
    then have "\<not> isl (regression_of sm path scores d)"
      by (auto simp: regress_step_def split: sum.splits)
    with Cons.prems have "\<exists>dv \<in> set ds. isl (regression_of sm path scores dv)" by auto
    from Cons.IH [OF this] Inr show ?thesis by simp
  qed
qed

lemma InnerModel_loop_fails:
  "isl (regress_loop sm path scores (endogenous_of path) (init_obj path)) \<Longrightarrow>
   isl (InnerModel sm path scores)"
  by (auto simp: InnerModel_def split: sum.splits)

lemma OuterModel_cases:
  "OuterModel corr data y weights odm r_sq =
     (if set (columns odm) = set (s_index r_sq)
      then Inr \<lparr>om_crossloadings = crossloadings_of corr data y,
                om_outer_model = concat_axis1 weights
                  (sum_axis1 (frame_mul (crossloadings_of corr data y) odm))
                  (pow2 (sum_axis1 (frame_mul (crossloadings_of corr data y) odm)))
                  (series_mul (pow2 (sum_axis1 (frame_mul (crossloadings_of corr data y) odm)))
                              (sum_axis1 (dot_cells odm (diag_frame r_sq))))\<rparr>
      else Inl ValueError)"
  by (simp add: OuterModel_def Let_def dot_def index_diag_frame)

text \<open>The loop of the constructor completes exactly when every regression succeeds and
  reports a coefficient for the constant.\<close>

lemma regress_step_completes:
  "regression_of sm path scores dv = Inr reg \<Longrightarrow> ''const'' \<in> set (s_index (params reg)) \<Longrightarrow>
   \<exists>self'. regress_step sm path scores dv self = Inr self'"
  by (simp add: regress_step_def p_summary_def Let_def)

lemma regress_loop_completes:
  "\<forall>dv \<in> set dvs. \<exists>reg. regression_of sm path scores dv = Inr reg \<and>
                         ''const'' \<in> set (s_index (params reg)) \<Longrightarrow>
   \<exists>self'. regress_loop sm path scores dvs self = Inr self'"
proof (induction dvs arbitrary: self)
  case Nil
  then show ?case by simp
next
  case (Cons d ds)
  then obtain reg where "regression_of sm path scores d = Inr reg"
    "''const'' \<in> set (s_index (params reg))" by auto
  from regress_step_completes [OF this] obtain s1 where
    s1: "regress_step sm path scores d self = Inr s1" by blast
  from Cons.prems have "\<forall>dv \<in> set ds. \<exists>reg. regression_of sm path scores dv = Inr reg \<and>
                         ''const'' \<in> set (s_index (params reg))" by simp
  from Cons.IH [OF this, of s1] s1 show ?case by simp
qed

lemma regress_loop_needs:
  "regress_loop sm path scores dvs self = Inr self' \<Longrightarrow>
   \<forall>dv \<in> set dvs. \<exists>reg. regression_of sm path scores dv = Inr reg \<and>
                         ''const'' \<in> set (s_index (params reg))"
proof (induction dvs arbitrary: self)
  case Nil
  then show ?case by simp
next
  case (Cons d ds)
  from Cons.prems obtain s1 where
    s1: "regress_step sm path scores d self = Inr s1" and
    rest: "regress_loop sm path scores ds s1 = Inr self'"
    by (auto split: sum.splits)
  from regress_step_Inr [OF s1] obtain reg rows where
    "regression_of sm path scores d = Inr reg" "p_summary d reg = Inr rows" by blast
  then have "\<exists>reg. regression_of sm path scores d = Inr reg \<and>
                  ''const'' \<in> set (s_index (params reg))"
    by (auto simp: p_summary_def split: if_splits)
  with Cons.IH [OF rest] show ?case by simp
qed

lemma InnerModel_completes_iff:
  assumes sq: "set (index path) = set (columns path)"
  shows "\<not> isl (InnerModel sm path scores) \<longleftrightarrow>
     (\<forall>dv \<in> set (endogenous_of path). \<exists>reg. regression_of sm path scores dv = Inr reg \<and>
                         ''const'' \<in> set (s_index (params reg)))"
proof
  assume "\<not> isl (InnerModel sm path scores)"
  then obtain self where "InnerModel sm path scores = Inr self"
    by (cases "InnerModel sm path scores") auto
  from InnerModel_Inr [OF this] obtain s0 where
    "regress_loop sm path scores (endogenous_of path) (init_obj path) = Inr s0" by blast
  then show "\<forall>dv \<in> set (endogenous_of path). \<exists>reg. regression_of sm path scores dv = Inr reg \<and>
                         ''const'' \<in> set (s_index (params reg))"
    by (rule regress_loop_needs)
next
  assume "\<forall>dv \<in> set (endogenous_of path). \<exists>reg. regression_of sm path scores dv = Inr reg \<and>
                         ''const'' \<in> set (s_index (params reg))"
  from regress_loop_completes [OF this] obtain s0 where
    loop: "regress_loop sm path scores (endogenous_of path) (init_obj path) = Inr s0" by blast
  have "index (im_path_coefficients s0) = index path"
       "columns (im_path_coefficients s0) = columns path"
    using regress_loop_fixed [OF loop] by (simp_all add: init_obj_def const_frame_def)
  then have sq': "set (index (im_path_coefficients s0)) = set (columns (im_path_coefficients s0))"
    using sq by simp
  from effects_matrices_axes [OF sq'] obtain pe ind tot where
    "effects_matrices (im_path_coefficients s0) = Inr (pe, ind, tot)" by blast
  from p_effects_spec [OF sq' this] loop show "\<not> isl (InnerModel sm path scores)"
    by (simp add: InnerModel_def)
qed

text \<open>The rows of the outer-model table for labels that the inputs do not share.\<close>

lemma loading_unmatched:
  "i \<notin> set (index cl) \<or> i \<notin> set (index odm) \<Longrightarrow>
   s_val (sum_axis1 (frame_mul cl odm)) i = Num 0"
proof -
  assume u: "i \<notin> set (index cl) \<or> i \<notin> set (index odm)"
  let ?g = "\<lambda>c. if i \<in> set (index cl) \<and> i \<in> set (index odm)
                     \<and> c \<in> set (columns cl) \<and> c \<in> set (columns odm)
                  then fmul (cell cl i c) (cell odm i c) else NaN"
  have "\<And>c. ?g c = NaN" using u by auto
  then have "\<forall>c \<in> set (union_labels (columns cl) (columns odm)). ?g c = NaN \<or> ?g c = Num 0"
    by blast
  then have "sum_skipna (map ?g (union_labels (columns cl) (columns odm))) = Num 0"
    by (rule sum_skipna_zero)
  then show ?thesis by (simp only: loading_val)
qed

lemma outer_table_rows:
  assumes ok: "OuterModel corr data y weights odm r_sq = Inr self"
  shows "set (ot_index (model self)) = set (index weights) \<union> set (tcolumns data) \<union> set (index odm)"
    and "index (crossloadings self) = tcolumns data"
    and "i \<notin> set (index weights) \<Longrightarrow> ot_weight (model self) i c = NaN"
    and "i \<in> set (tcolumns data) \<union> set (index odm) \<Longrightarrow>
         i \<notin> set (tcolumns data) \<or> i \<notin> set (index odm) \<Longrightarrow>
         ot_loading (model self) i = Num 0 \<and> ot_communality (model self) i = Num 0"
    and "i \<in> set (tcolumns data) \<Longrightarrow> i \<notin> set (index odm) \<Longrightarrow>
         ot_redundancy (model self) i = NaN"
    and "i \<in> set (index odm) \<Longrightarrow> i \<notin> set (tcolumns data) \<Longrightarrow>
         ot_redundancy (model self) i = Num 0 \<or> ot_redundancy (model self) i = NaN"
    and "i \<notin> set (tcolumns data) \<Longrightarrow> i \<notin> set (index odm) \<Longrightarrow>
         ot_loading (model self) i = NaN \<and> ot_communality (model self) i = NaN \<and>
         ot_redundancy (model self) i = NaN"
proof -
  let ?cl = "crossloadings_of corr data y"
  let ?L = "sum_axis1 (frame_mul ?cl odm)"
  let ?aux = "sum_axis1 (dot_cells odm (diag_frame r_sq))"
  from OuterModel_Inr [OF ok] have
    cl: "crossloadings self = ?cl" and
    m: "model self = concat_axis1 weights ?L (pow2 ?L) (series_mul (pow2 ?L) ?aux)"
    by simp_all
  have ax: "index ?cl = tcolumns data" by (simp add: crossloadings_of_def)
  have iL: "set (s_index ?L) = set (tcolumns data) \<union> set (index odm)"
    using loading_index [of ?cl odm] by (simp add: ax)
  have iP: "s_index (pow2 ?L) = s_index ?L" by (simp add: pow2_def)
  have iA: "s_index ?aux = index odm" by (simp add: sum_axis1_def dot_cells_def)
  have iR: "set (s_index (series_mul (pow2 ?L) ?aux)) = set (tcolumns data) \<union> set (index odm)"
    by (auto simp: series_mul_def union_labels_set iP iL iA)
  show "set (ot_index (model self)) = set (index weights) \<union> set (tcolumns data) \<union> set (index odm)"
    by (auto simp: m concat_axis1_def iP iL iR)
  show "index (crossloadings self) = tcolumns data" by (simp add: cl ax)
  show "i \<notin> set (index weights) \<Longrightarrow> ot_weight (model self) i c = NaN"
    by (simp add: m concat_axis1_def)
  show "i \<in> set (tcolumns data) \<union> set (index odm) \<Longrightarrow>
         i \<notin> set (tcolumns data) \<or> i \<notin> set (index odm) \<Longrightarrow>
         ot_loading (model self) i = Num 0 \<and> ot_communality (model self) i = Num 0"
  proof -
    assume i: "i \<in> set (tcolumns data) \<union> set (index odm)"
      and u: "i \<notin> set (tcolumns data) \<or> i \<notin> set (index odm)"
    from u have "s_val ?L i = Num 0" by (intro loading_unmatched) (simp add: ax)
    moreover have "i \<in> set (s_index ?L)" using i by (simp add: iL)
    ultimately show ?thesis
      by (simp add: m concat_axis1_def series_at_def pow2_def)
  qed
  show "i \<in> set (tcolumns data) \<Longrightarrow> i \<notin> set (index odm) \<Longrightarrow>
         ot_redundancy (model self) i = NaN"
    by (simp add: m concat_axis1_def series_at_def series_mul_def iA)
  show "i \<in> set (index odm) \<Longrightarrow> i \<notin> set (tcolumns data) \<Longrightarrow>
         ot_redundancy (model self) i = Num 0 \<or> ot_redundancy (model self) i = NaN"
  proof -
    assume i: "i \<in> set (index odm)" and u: "i \<notin> set (tcolumns data)"
    from u have l: "s_val ?L i = Num 0" by (intro loading_unmatched) (simp add: ax)
    have "i \<in> set (s_index (pow2 ?L))" using i by (simp add: iP iL)
    then have "ot_redundancy (model self) i = fmul (Num 0) (s_val ?aux i)"
      using i by (simp add: m concat_axis1_def series_at_def series_mul_def iA union_labels_set
                    pow2_def l)
    with fmul_zero_left [of "s_val ?aux i"] show ?thesis by simp
  qed
  show "i \<notin> set (tcolumns data) \<Longrightarrow> i \<notin> set (index odm) \<Longrightarrow>
         ot_loading (model self) i = NaN \<and> ot_communality (model self) i = NaN \<and>
         ot_redundancy (model self) i = NaN"
    by (simp add: m concat_axis1_def series_at_def iP iL iR)
qed

text \<open>
  Claim C9, as the code has it. The constructors check no labels themselves; a
  mismatch fails a construction only where an operation it runs needs the label.

  Inner model: the construction fails when an endogenous variable, or one of its
  predictors, is not a column of \<open>scores\<close> (with KeyError when it is the first endogenous
  variable). For a path matrix with the same labels on both axes it completes exactly
  when every endogenous variable and its predictors are columns of \<open>scores\<close> and the
  library's fit of its column on the predictors' columns with the constant succeeds and
  reports a coefficient \<open>const\<close>: no other column of \<open>scores\<close>, missing or not, matters.

  Outer model: the construction raises ValueError exactly when the columns of the outer
  design matrix and the index of \<open>r_squared\<close> hold different labels, and completes
  otherwise. The rows of its table are the labels of the weights, the data and the
  design matrix together, and the cross-loadings have the rows of the data. A label
  that only one of the data and the design matrix has gets loading 0 and communality 0,
  and redundancy NaN (not in the design matrix) or 0 or NaN (not in the data); a label
  that neither has gets NaN for the three; a label that the weights lack gets NaN weights.
\<close>

theorem constructor_failures:
  "((\<exists>dv \<in> set (endogenous_of path).
        dv \<notin> set (tcolumns scores) \<or> \<not> set (predictors path dv) \<subseteq> set (tcolumns scores))
      \<longrightarrow> isl (InnerModel sm path scores)) \<and>
   ((\<exists>dv rest. endogenous_of path = dv # rest \<and>
        (dv \<notin> set (tcolumns scores) \<or> \<not> set (predictors path dv) \<subseteq> set (tcolumns scores)))
      \<longrightarrow> InnerModel sm path scores = Inl KeyError) \<and>
   (set (index path) = set (columns path) \<longrightarrow>
      (\<not> isl (InnerModel sm path scores) \<longleftrightarrow>
         (\<forall>dv \<in> set (endogenous_of path).
            dv \<in> set (tcolumns scores) \<and> set (predictors path dv) \<subseteq> set (tcolumns scores) \<and>
            (\<exists>reg. ols_fit sm (tcolumn scores dv)
                      (add_constant sm (scores\<lparr>tcolumns := predictors path dv\<rparr>)) = Inr reg \<and>
                   ''const'' \<in> set (s_index (params reg)))))) \<and>
   (OuterModel corr data y weights odm r_sq = Inl ValueError
      \<longleftrightarrow> set (columns odm) \<noteq> set (s_index r_sq)) \<and>
   (set (columns odm) = set (s_index r_sq)
      \<longrightarrow> \<not> isl (OuterModel corr data y weights odm r_sq)) \<and>
   (\<forall>self. OuterModel corr data y weights odm r_sq = Inr self \<longrightarrow>
      set (ot_index (model self)) = set (index weights) \<union> set (tcolumns data) \<union> set (index odm) \<and>
      index (crossloadings self) = tcolumns data \<and>
      (\<forall>i. (i \<notin> set (index weights) \<longrightarrow> (\<forall>c. ot_weight (model self) i c = NaN)) \<and>
           (i \<in> set (tcolumns data) \<and> i \<notin> set (index odm) \<longrightarrow>
              ot_loading (model self) i = Num 0 \<and> ot_communality (model self) i = Num 0 \<and>
              ot_redundancy (model self) i = NaN) \<and>
           (i \<in> set (index odm) \<and> i \<notin> set (tcolumns data) \<longrightarrow>
              ot_loading (model self) i = Num 0 \<and> ot_communality (model self) i = Num 0 \<and>
              (ot_redundancy (model self) i = Num 0 \<or> ot_redundancy (model self) i = NaN)) \<and>
           (i \<notin> set (tcolumns data) \<and> i \<notin> set (index odm) \<longrightarrow>
              ot_loading (model self) i = NaN \<and> ot_communality (model self) i = NaN \<and>
              ot_redundancy (model self) i = NaN)))"
proof -
  have a: "(\<exists>dv \<in> set (endogenous_of path).
        dv \<notin> set (tcolumns scores) \<or> \<not> set (predictors path dv) \<subseteq> set (tcolumns scores))
      \<longrightarrow> isl (InnerModel sm path scores)"
  proof
    assume "\<exists>dv \<in> set (endogenous_of path).
        dv \<notin> set (tcolumns scores) \<or> \<not> set (predictors path dv) \<subseteq> set (tcolumns scores)"
    then obtain dv where dv: "dv \<in> set (endogenous_of path)"
      "dv \<notin> set (tcolumns scores) \<or> \<not> set (predictors path dv) \<subseteq> set (tcolumns scores)"
      by blast
    from regression_of_KeyError [OF dv(2)] have "isl (regression_of sm path scores dv)"
      by simp
    with dv(1) have "\<exists>dv \<in> set (endogenous_of path). isl (regression_of sm path scores dv)"
      by blast
    then show "isl (InnerModel sm path scores)"
      by (intro InnerModel_loop_fails regress_loop_fails)
  qed
  have b: "(\<exists>dv rest. endogenous_of path = dv # rest \<and>
        (dv \<notin> set (tcolumns scores) \<or> \<not> set (predictors path dv) \<subseteq> set (tcolumns scores)))
      \<longrightarrow> InnerModel sm path scores = Inl KeyError"
  proof
    assume "\<exists>dv rest. endogenous_of path = dv # rest \<and>
        (dv \<notin> set (tcolumns scores) \<or> \<not> set (predictors path dv) \<subseteq> set (tcolumns scores))"
    then obtain dv rest where e: "endogenous_of path = dv # rest"
      and "dv \<notin> set (tcolumns scores) \<or> \<not> set (predictors path dv) \<subseteq> set (tcolumns scores)"
      by blast
    then have "regress_step sm path scores dv (init_obj path) = Inl KeyError"
      by (intro regress_step_fails regression_of_KeyError)
    then show "InnerModel sm path scores = Inl KeyError"
      by (simp add: InnerModel_def e)
  qed
  have c: "set (index path) = set (columns path) \<longrightarrow>
      (\<not> isl (InnerModel sm path scores) \<longleftrightarrow>
         (\<forall>dv \<in> set (endogenous_of path).
            dv \<in> set (tcolumns scores) \<and> set (predictors path dv) \<subseteq> set (tcolumns scores) \<and>
            (\<exists>reg. ols_fit sm (tcolumn scores dv)
                      (add_constant sm (scores\<lparr>tcolumns := predictors path dv\<rparr>)) = Inr reg \<and>
                   ''const'' \<in> set (s_index (params reg)))))"
  proof
    assume sq: "set (index path) = set (columns path)"
    have "\<And>dv. (\<exists>reg. regression_of sm path scores dv = Inr reg \<and>
                         ''const'' \<in> set (s_index (params reg))) \<longleftrightarrow>
       (dv \<in> set (tcolumns scores) \<and> set (predictors path dv) \<subseteq> set (tcolumns scores) \<and>
            (\<exists>reg. ols_fit sm (tcolumn scores dv)
                      (add_constant sm (scores\<lparr>tcolumns := predictors path dv\<rparr>)) = Inr reg \<and>
                   ''const'' \<in> set (s_index (params reg))))"
      by (auto simp: regression_of_Inr_iff loc_columns_def loc_column_def)
    then show "\<not> isl (InnerModel sm path scores) \<longleftrightarrow>
         (\<forall>dv \<in> set (endogenous_of path).
            dv \<in> set (tcolumns scores) \<and> set (predictors path dv) \<subseteq> set (tcolumns scores) \<and>
            (\<exists>reg. ols_fit sm (tcolumn scores dv)
                      (add_constant sm (scores\<lparr>tcolumns := predictors path dv\<rparr>)) = Inr reg \<and>
                   ''const'' \<in> set (s_index (params reg))))"
      by (simp only: InnerModel_completes_iff [OF sq])
  qed
  have d: "OuterModel corr data y weights odm r_sq = Inl ValueError
      \<longleftrightarrow> set (columns odm) \<noteq> set (s_index r_sq)"
    by (simp add: OuterModel_cases)
  have e: "set (columns odm) = set (s_index r_sq)
      \<longrightarrow> \<not> isl (OuterModel corr data y weights odm r_sq)"
    by (simp add: OuterModel_cases)
  have f: "\<forall>self. OuterModel corr data y weights odm r_sq = Inr self \<longrightarrow>
      set (ot_index (model self)) = set (index weights) \<union> set (tcolumns data) \<union> set (index odm) \<and>
      index (crossloadings self) = tcolumns data \<and>
      (\<forall>i. (i \<notin> set (index weights) \<longrightarrow> (\<forall>c. ot_weight (model self) i c = NaN)) \<and>
           (i \<in> set (tcolumns data) \<and> i \<notin> set (index odm) \<longrightarrow>
              ot_loading (model self) i = Num 0 \<and> ot_communality (model self) i = Num 0 \<and>
              ot_redundancy (model self) i = NaN) \<and>
           (i \<in> set (index odm) \<and> i \<notin> set (tcolumns data) \<longrightarrow>
              ot_loading (model self) i = Num 0 \<and> ot_communality (model self) i = Num 0 \<and>
              (ot_redundancy (model self) i = Num 0 \<or> ot_redundancy (model self) i = NaN)) \<and>
           (i \<notin> set (tcolumns data) \<and> i \<notin> set (index odm) \<longrightarrow>
              ot_loading (model self) i = NaN \<and> ot_communality (model self) i = NaN \<and>
              ot_redundancy (model self) i = NaN))"
  proof (intro allI impI)
    fix self assume ok: "OuterModel corr data y weights odm r_sq = Inr self"
    note r = outer_table_rows [OF ok]
    show "set (ot_index (model self)) = set (index weights) \<union> set (tcolumns data) \<union> set (index odm) \<and>
      index (crossloadings self) = tcolumns data \<and>
      (\<forall>i. (i \<notin> set (index weights) \<longrightarrow> (\<forall>c. ot_weight (model self) i c = NaN)) \<and>
           (i \<in> set (tcolumns data) \<and> i \<notin> set (index odm) \<longrightarrow>
              ot_loading (model self) i = Num 0 \<and> ot_communality (model self) i = Num 0 \<and>
              ot_redundancy (model self) i = NaN) \<and>
           (i \<in> set (index odm) \<and> i \<notin> set (tcolumns data) \<longrightarrow>
              ot_loading (model self) i = Num 0 \<and> ot_communality (model self) i = Num 0 \<and>
              (ot_redundancy (model self) i = Num 0 \<or> ot_redundancy (model self) i = NaN)) \<and>
           (i \<notin> set (tcolumns data) \<and> i \<notin> set (index odm) \<longrightarrow>
              ot_loading (model self) i = NaN \<and> ot_communality (model self) i = NaN \<and>
              ot_redundancy (model self) i = NaN))"
      using r(1,2) r(3) r(4) r(5) r(6) r(7) by (intro conjI allI impI) blast+
  qed
  from a b c d e f show ?thesis by (intro conjI)
qed

theorem constructor_failures_witness:
  "InnerModel stub_sm path3 scores_a = Inl KeyError \<and>
   \<not> isl (InnerModel stub_sm path3 scores3) \<and>
   OuterModel stub_corr data3 y2 weights3 odm3 r_sq1 = Inl ValueError \<and>
   (\<exists>self. OuterModel stub_corr data2 y2 weights3 odm3 r_sq2 = Inr self \<and>
      ot_loading (model self) ''x3'' = Num 0 \<and> ot_communality (model self) ''x3'' = Num 0 \<and>
      index (crossloadings self) = [''x1'', ''x2''])"
proof -
  note t = constructor_failures [of path3 _ stub_sm stub_corr _ y2 weights3 odm3]
  have e: "endogenous_of path3 = [''B'', ''C'']"
    by (simp add: endogenous_of_def row_sum_def sum_skipna_def path3_def)
  have "''B'' \<notin> set (tcolumns scores_a)" by (simp add: scores_a_def)
  with e t [of scores_a data3 r_sq1] have 1: "InnerModel stub_sm path3 scores_a = Inl KeyError"
    by blast
  have sq: "set (index path3) = set (columns path3)" by (simp add: path3_def)
  have fits: "\<forall>dv \<in> set (endogenous_of path3).
            dv \<in> set (tcolumns scores3) \<and> set (predictors path3 dv) \<subseteq> set (tcolumns scores3) \<and>
            (\<exists>reg. ols_fit stub_sm (tcolumn scores3 dv)
                      (add_constant stub_sm (scores3\<lparr>tcolumns := predictors path3 dv\<rparr>)) = Inr reg \<and>
                   ''const'' \<in> set (s_index (params reg)))"
    unfolding e
    by (simp add: predictors_def path3_def scores3_def stub_sm_def stub_regression_def
          const_series_def)
  with sq t [of scores3 data3 r_sq1] have 2: "\<not> isl (InnerModel stub_sm path3 scores3)"
    by blast
  have "''B'' \<in> set (columns odm3)" "''B'' \<notin> set (s_index r_sq1)"
    by (simp_all add: odm3_def r_sq1_def)
  then have "set (columns odm3) \<noteq> set (s_index r_sq1)" by blast
  with t [of scores3 data3 r_sq1]
  have 3: "OuterModel stub_corr data3 y2 weights3 odm3 r_sq1 = Inl ValueError"
    by blast
  have al: "set (columns odm3) = set (s_index r_sq2)" by (simp add: odm3_def r_sq2_def)
  with t [of scores3 data2 r_sq2]
  have "\<not> isl (OuterModel stub_corr data2 y2 weights3 odm3 r_sq2)" by blast
  then obtain self where ok: "OuterModel stub_corr data2 y2 weights3 odm3 r_sq2 = Inr self"
    by (cases "OuterModel stub_corr data2 y2 weights3 odm3 r_sq2") auto
  have x3: "''x3'' \<in> set (index odm3) \<and> ''x3'' \<notin> set (tcolumns data2)"
    by (simp add: odm3_def data2_def)
  from t [of scores3 data2 r_sq2] ok x3
  have 4: "ot_loading (model self) ''x3'' = Num 0 \<and> ot_communality (model self) ''x3'' = Num 0"
    by blast
  from t [of scores3 data2 r_sq2] ok
  have "index (crossloadings self) = tcolumns data2" by blast
  then have 5: "index (crossloadings self) = [''x1'', ''x2'']" by (simp add: data2_def)
  from 1 2 3 ok 4 5 show ?thesis by blast
qed

text \<open>
  Claim C9, as it is stated, fails: the scores have no column for \<open>C\<close>, and the data no
  column for the indicator \<open>x3\<close> of the design matrix and of the weights, yet both
  constructions complete.
\<close>

theorem mismatched_labels_complete:
  "set (index path_ab) \<noteq> set (tcolumns scores_ab) \<and>
   \<not> isl (InnerModel stub_sm path_ab scores_ab) \<and>
   set (index odm3) \<noteq> set (tcolumns data2) \<and>
   set (index weights3) \<noteq> set (tcolumns data2) \<and>
   \<not> isl (OuterModel stub_corr data2 y2 weights3 odm3 r_sq2)"
proof -
  have "''C'' \<in> set (index path_ab)" "''C'' \<notin> set (tcolumns scores_ab)"
    by (simp_all add: path_ab_def scores_ab_def)
  then have 1: "set (index path_ab) \<noteq> set (tcolumns scores_ab)" by blast
  have 2: "\<not> isl (InnerModel stub_sm path_ab scores_ab)"
    by (simp add: InnerModel_def endogenous_of_def row_sum_def sum_skipna_def path_ab_def
          regress_step_def regression_of_def predictors_def loc_columns_def loc_column_def
          scores_ab_def stub_sm_def stub_regression_def p_summary_def const_series_def
          p_effects_def effects_matrices_def effects_general_def upt_conv_Cons dot_def
          set_row_def init_obj_def const_frame_def dot_cells_def union_labels_def
          frame_add_def frame_op_def loc_def effect_row_def series_at_def Let_def)
  have "''x3'' \<in> set (index odm3)" "''x3'' \<in> set (index weights3)"
    "''x3'' \<notin> set (tcolumns data2)"
    by (simp_all add: odm3_def data2_def weights3_def const_frame_def)
  then have 3: "set (index odm3) \<noteq> set (tcolumns data2)"
    "set (index weights3) \<noteq> set (tcolumns data2)" by blast+
  have 4: "\<not> isl (OuterModel stub_corr data2 y2 weights3 odm3 r_sq2)"
    by (simp add: OuterModel_cases odm3_def r_sq2_def)
  from 1 2 3 4 show ?thesis by blast
qed

end
